theory Spec2Isabelle
  imports Main
begin

section \<open>Text: white space, trimming and the sentence split\<close>

text \<open>
  A Python string is a sequence of code points. The white space of \<^verbatim>\<open>\s\<close> in a
  pattern over strings and of \<^verbatim>\<open>str.strip()\<close> is the same set of code points: tab to
  carriage return, the four separators 0x1C to 0x1F, the space, NEL, the no-break space,
  the Ogham space mark, U+2000 to U+200A, the line and the paragraph separator, the narrow
  no-break space, the medium mathematical space and the ideographic space.
\<close>

definition py_space :: "nat \<Rightarrow> bool" where
  "py_space n \<longleftrightarrow>
     (0x09 \<le> n \<and> n \<le> 0x0D) \<or> (0x1C \<le> n \<and> n \<le> 0x20) \<or> n = 0x85 \<or> n = 0xA0 \<or> n = 0x1680
     \<or> (0x2000 \<le> n \<and> n \<le> 0x200A) \<or> n = 0x2028 \<or> n = 0x2029 \<or> n = 0x202F \<or> n = 0x205F
     \<or> n = 0x3000"

text \<open>The class \<^verbatim>\<open>[.!?]\<close> of the lookbehind: full stop, exclamation mark, question mark.\<close>

definition py_terminal :: "nat \<Rightarrow> bool" where
  "py_terminal n \<longleftrightarrow> n = 0x2E \<or> n = 0x21 \<or> n = 0x3F"

text \<open>
  The strings of this theory are lists of 8-bit characters, read as the code points below
  256; their two classes are the ones above, read through the code point of the character.
\<close>

definition is_space :: "char \<Rightarrow> bool" where
  "is_space c = py_space (of_char c)"

definition is_terminal :: "char \<Rightarrow> bool" where
  "is_terminal c = py_terminal (of_char c)"

text \<open>
  The split is written once, for any type of characters, over the class \<open>sp\<close> of white
  space and the class \<open>tm\<close> of terminal characters.

  \<^verbatim>\<open>s.strip()\<close>: leading and trailing white space removed.
\<close>

definition strip_by :: "('a \<Rightarrow> bool) \<Rightarrow> 'a list \<Rightarrow> 'a list" where
  "strip_by sp s = rev (dropWhile sp (rev (dropWhile sp s)))"

text \<open>
  \<^verbatim>\<open>re.split(r'(?<=[.!?])\s+', abstract)\<close>. A match starts right after a terminal
  character that is followed by white space, and \<^verbatim>\<open>\s+\<close> takes the whole run of
  white space; the piece before the match keeps the terminal character. The argument
  \<open>cur\<close> is the piece read so far, the last argument the text still to scan; the last
  piece is always returned, also when it is empty.
\<close>

function re_split_by :: "('a \<Rightarrow> bool) \<Rightarrow> ('a \<Rightarrow> bool) \<Rightarrow> 'a list \<Rightarrow> 'a list \<Rightarrow> 'a list list" where
  "re_split_by sp tm cur [] = [cur]"
| "re_split_by sp tm cur (c # cs) =
     (if tm c \<and> cs \<noteq> [] \<and> sp (hd cs)
      then (cur @ [c]) # re_split_by sp tm [] (dropWhile sp cs)
      else re_split_by sp tm (cur @ [c]) cs)"
  by pat_completeness auto
termination
  by (relation "measure (\<lambda>(sp, tm, cur, rest). length rest)")
     (auto simp: length_dropWhile_le less_Suc_eq_le)

text \<open>
  Lines 286 to 289 of \<^verbatim>\<open>streamlit_app.py\<close>:
  \<^verbatim>\<open>[s.strip() for s in abstract_sentences if s.strip()]\<close> after the split.
\<close>

definition sentences_by :: "('a \<Rightarrow> bool) \<Rightarrow> ('a \<Rightarrow> bool) \<Rightarrow> 'a list \<Rightarrow> 'a list list" where
  "sentences_by sp tm abstract =
     concat (map (\<lambda>s. if strip_by sp s \<noteq> [] then [strip_by sp s] else [])
               (re_split_by sp tm [] abstract))"

text \<open>The sentences of an abstract held in a string, and of one given by its code points.\<close>

definition abstract_sentences :: "string \<Rightarrow> string list" where
  "abstract_sentences abstract = sentences_by is_space is_terminal abstract"

definition abstract_sentences_points :: "nat list \<Rightarrow> nat list list" where
  "abstract_sentences_points abstract = sentences_by py_space py_terminal abstract"

subsection \<open>What the specification says of the split\<close>

text \<open>
  The specification's sentence, taken by its words: the abstract is split on
  sentence-terminal punctuation followed by white space, each fragment is trimmed, and the
  empty fragments are discarded.

  A string has a split point where a terminal character is directly followed by white
  space.
\<close>

fun split_point_in :: "('a \<Rightarrow> bool) \<Rightarrow> ('a \<Rightarrow> bool) \<Rightarrow> 'a list \<Rightarrow> bool" where
  "split_point_in sp tm (c # d # cs) \<longleftrightarrow> (tm c \<and> sp d) \<or> split_point_in sp tm (d # cs)"
| "split_point_in sp tm _ \<longleftrightarrow> False"

text \<open>The pieces put together again, with a separator between each two neighbours.\<close>

fun weave :: "'a list list \<Rightarrow> 'a list list \<Rightarrow> 'a list" where
  "weave (p # ps) (s # ss) = p @ s @ weave ps ss"
| "weave (p # ps) [] = p"
| "weave [] ss = []"

text \<open>
  The pieces \<open>ps\<close> are the split of the text \<open>a\<close>: the text is the pieces with a
  separator between each two neighbours; a separator is a non-empty run of white space; it
  follows a terminal character, the last of the piece before it; it is the whole run, so
  the piece after it does not begin with white space; and the separators are all the split
  points of the text, so no piece has one.
\<close>

definition split_spec :: "('a \<Rightarrow> bool) \<Rightarrow> ('a \<Rightarrow> bool) \<Rightarrow> 'a list \<Rightarrow> 'a list list \<Rightarrow> bool" where
  "split_spec sp tm a ps \<longleftrightarrow>
     (\<exists>seps. length ps = Suc (length seps) \<and> a = weave ps seps
        \<and> (\<forall>s \<in> set seps. s \<noteq> [] \<and> (\<forall>c \<in> set s. sp c))
        \<and> (\<forall>p \<in> set (butlast ps). p \<noteq> [] \<and> tm (last p))
        \<and> (\<forall>p \<in> set (tl ps). p = [] \<or> \<not> sp (hd p))
        \<and> (\<forall>p \<in> set ps. \<not> split_point_in sp tm p))"

text \<open>
  The fragment \<open>f\<close> is the piece \<open>p\<close> trimmed: the piece is the fragment between two
  runs of white space, and the fragment neither begins nor ends with white space.
\<close>

definition trimmed :: "('a \<Rightarrow> bool) \<Rightarrow> 'a list \<Rightarrow> 'a list \<Rightarrow> bool" where
  "trimmed sp p f \<longleftrightarrow>
     (\<exists>l r. p = l @ f @ r \<and> (\<forall>c \<in> set l. sp c) \<and> (\<forall>c \<in> set r. sp c)
        \<and> (f = [] \<or> (\<not> sp (hd f) \<and> \<not> sp (last f))))"

text \<open>The sentences: the pieces of the split, each trimmed, without the empty ones.\<close>

definition sentences_spec :: "('a \<Rightarrow> bool) \<Rightarrow> ('a \<Rightarrow> bool) \<Rightarrow> 'a list \<Rightarrow> 'a list list \<Rightarrow> bool" where
  "sentences_spec sp tm a out \<longleftrightarrow>
     (\<exists>ps fs. split_spec sp tm a ps \<and> list_all2 (trimmed sp) ps fs
        \<and> out = filter (\<lambda>f. f \<noteq> []) fs)"

section \<open>Tables, data frames and the remote spreadsheet\<close>

type_synonym row = "string list"
type_synonym table = "row list"

text \<open>
  A pandas data frame with string cells: the column names and the rows in order, one cell
  per column in every row.
\<close>

record dataframe =
  df_columns :: "string list"
  df_values :: "row list"

definition df_empty :: "dataframe \<Rightarrow> bool" where
  "df_empty df \<longleftrightarrow> df_values df = [] \<or> df_columns df = []"

definition df_ok :: "dataframe \<Rightarrow> bool" where
  "df_ok df \<longleftrightarrow> list_all (\<lambda>r. length r = length (df_columns df)) (df_values df)"

text \<open>\<^verbatim>\<open>header.index('PMID')\<close>: the first position of a member.\<close>

fun index_of :: "'a list \<Rightarrow> 'a \<Rightarrow> nat" where
  "index_of [] x = 0"
| "index_of (y # ys) x = (if y = x then 0 else Suc (index_of ys x))"

text \<open>
  \<^verbatim>\<open>series.get(column, default)\<close> on one row of a data frame: the cell of the column,
  and the default for a column that the frame does not have.

  A row of the sheet that is shorter than the header has no cell for its last columns, and
  pandas fills them with \<^verbatim>\<open>None\<close>. Such a cell is told by \<open>cell_is_none\<close>. Where
  the script does not stumble over it, it is read as the default.
\<close>

definition series_get :: "string list \<Rightarrow> row \<Rightarrow> string \<Rightarrow> string \<Rightarrow> string" where
  "series_get cols r c d = (case map_of (zip cols r) c of Some v \<Rightarrow> v | None \<Rightarrow> d)"

definition cell_is_none :: "string list \<Rightarrow> row \<Rightarrow> string \<Rightarrow> bool" where
  "cell_is_none cols r c \<longleftrightarrow> c \<in> set cols \<and> map_of (zip cols r) c = None"

text \<open>\<^verbatim>\<open>df['PMID'].astype(str)\<close> of a row, for a frame that has the column.\<close>

definition df_pmid :: "dataframe \<Rightarrow> row \<Rightarrow> string" where
  "df_pmid df r = r ! index_of (df_columns df) ''PMID''"

text \<open>
  The identities read from a worksheet whose header has the column: the cell under
  \<^verbatim>\<open>PMID\<close> of every data row long enough to have one
  (\<^verbatim>\<open>row[header.index('PMID')] for row in values[1:] if len(row) > header.index('PMID')\<close>).
\<close>

definition pmid_column :: "table \<Rightarrow> string list" where
  "pmid_column vals =
     (let i = index_of (hd vals) ''PMID''
      in map (\<lambda>r. r ! i) (filter (\<lambda>r. length r > i) (tl vals)))"

text \<open>
  The spreadsheet is a collaborator outside the repository. It is modelled as the worksheets
  by title, each the rows that \<^verbatim>\<open>values().get\<close> returns for it. Every call takes a
  flag saying that the transport fails for this call; a failing call raises, which is
  \<open>None\<close> here, and changes nothing. Besides the transport, reading or writing a
  worksheet that does not exist raises, and so does adding a sheet under a title that is
  taken.
\<close>

type_synonym store = "string \<Rightarrow> table option"

definition values_get :: "bool \<Rightarrow> store \<Rightarrow> string \<Rightarrow> table option" where
  "values_get fails s name = (if fails then None else s name)"

definition values_append :: "bool \<Rightarrow> store \<Rightarrow> string \<Rightarrow> row list \<Rightarrow> store option" where
  "values_append fails s name new_rows =
     (if fails then None
      else case s name of None \<Rightarrow> None | Some t \<Rightarrow> Some (s(name \<mapsto> t @ new_rows)))"

definition add_sheet :: "bool \<Rightarrow> store \<Rightarrow> string \<Rightarrow> store option" where
  "add_sheet fails s name =
     (if fails \<or> s name \<noteq> None then None else Some (s(name \<mapsto> [])))"

text \<open>Writing a block of rows at \<^verbatim>\<open>A1\<close> replaces the cells it covers.\<close>

fun overlay :: "table \<Rightarrow> table \<Rightarrow> table" where
  "overlay [] old = old"
| "overlay (v # vs) [] = v # overlay vs []"
| "overlay (v # vs) (r # rs) = (v @ drop (length v) r) # overlay vs rs"

definition values_update :: "bool \<Rightarrow> store \<Rightarrow> string \<Rightarrow> table \<Rightarrow> store option" where
  "values_update fails s name vals =
     (if fails then None
      else case s name of None \<Rightarrow> None | Some t \<Rightarrow> Some (s(name \<mapsto> overlay vals t)))"

text \<open>Which calls of one run fail in transport.\<close>

record faults =
  progress_get_fails :: bool
  get_fails :: bool
  append_fails :: bool
  add_sheet_fails :: bool
  update_fails :: bool

section \<open>Notices shown to the reviewer\<close>

datatype notice =
    No_new_responses
  | Appended nat
  | Could_not_read_may_not_exist
  | Created_worksheet
  | Sheet_creation_error
  | Wrote_all_data
  | Could_not_read
  | No_data_found
  | Progress int int int
  | End_of_records
  | PMID_not_found

datatype level = Info | Success | Warning | Error | Metric

fun level_of :: "notice \<Rightarrow> level" where
  "level_of No_new_responses = Info"
| "level_of (Appended n) = Success"
| "level_of Could_not_read_may_not_exist = Warning"
| "level_of Created_worksheet = Success"
| "level_of Sheet_creation_error = Error"
| "level_of Wrote_all_data = Success"
| "level_of Could_not_read = Warning"
| "level_of No_data_found = Error"
| "level_of (Progress t c r) = Metric"
| "level_of End_of_records = Info"
| "level_of PMID_not_found = Warning"

section \<open>\<^verbatim>\<open>GoogleSheetHandler\<close>\<close>

text \<open>
  Lines 69 to 101, entered with \<^verbatim>\<open>worksheet_exists\<close> false. The request to add the
  sheet is guarded: its failure is reported and the method returns. The write of the header
  and the rows is not guarded: its failure leaves the method as an exception, the third
  component of the result.
\<close>

definition create_and_write ::
    "faults \<Rightarrow> store \<Rightarrow> dataframe \<Rightarrow> string \<Rightarrow> notice list \<Rightarrow> store \<times> notice list \<times> bool" where
  "create_and_write f s df name ns =
     (case add_sheet (add_sheet_fails f) s name of
        None \<Rightarrow> (s, ns @ [Sheet_creation_error], False)
      | Some s1 \<Rightarrow>
          (case values_update (update_fails f) s1 name (df_columns df # df_values df) of
             None \<Rightarrow> (s1, ns @ [Created_worksheet], True)
           | Some s2 \<Rightarrow> (s2, ns @ [Created_worksheet, Wrote_all_data], False)))"

text \<open>
  \<^verbatim>\<open>add_new_worksheet_and_write(df, worksheet_name)\<close>, lines 37 to 101. Inside the
  \<^verbatim>\<open>try\<close>, \<^verbatim>\<open>worksheet_exists\<close> is set before the frame's \<^verbatim>\<open>PMID\<close> column is
  read and before the append, so an exception of either is reported by the warning and the
  creation path is skipped. The result is the store, the notices and whether an exception
  left the method.
\<close>

definition add_new_worksheet_and_write ::
    "faults \<Rightarrow> store \<Rightarrow> dataframe \<Rightarrow> string \<Rightarrow> store \<times> notice list \<times> bool" where
  "add_new_worksheet_and_write f s df worksheet_name =
     (case values_get (get_fails f) s worksheet_name of
        None \<Rightarrow> create_and_write f s df worksheet_name [Could_not_read_may_not_exist]
      | Some vals \<Rightarrow>
          if vals \<noteq> [] \<and> ''PMID'' \<in> set (hd vals) then
            if ''PMID'' \<notin> set (df_columns df) then (s, [Could_not_read_may_not_exist], False)
            else
              let existing_pmids = set (pmid_column vals);
                  new_rows = filter (\<lambda>r. df_pmid df r \<notin> existing_pmids) (df_values df)
              in if new_rows = [] then (s, [No_new_responses], False)
                 else
                   (case values_append (append_fails f) s worksheet_name new_rows of
                      None \<Rightarrow> (s, [Could_not_read_may_not_exist], False)
                    | Some s' \<Rightarrow> (s', [Appended (length new_rows)], False))
          else create_and_write f s df worksheet_name [])"

text \<open>\<^verbatim>\<open>get_validated_pmids(worksheet_name)\<close>, lines 103 to 116.\<close>

definition get_validated_pmids :: "bool \<Rightarrow> store \<Rightarrow> string \<Rightarrow> string set \<times> notice list" where
  "get_validated_pmids fails s worksheet_name =
     (case values_get fails s worksheet_name of
        None \<Rightarrow> ({}, [Could_not_read])
      | Some vals \<Rightarrow>
          if vals = [] \<or> ''PMID'' \<notin> set (hd vals) then ({}, [])
          else (set (pmid_column vals), []))"

section \<open>Session state and widgets\<close>

text \<open>
  The keys of \<^verbatim>\<open>st.session_state\<close> that \<^verbatim>\<open>main\<close> reads and writes. A key that is
  absent is \<open>None\<close>. For \<^verbatim>\<open>navigate_to_pmid\<close> the absent key and the value
  \<^verbatim>\<open>None\<close> are handled alike by lines 468 to 472, and both are \<open>None\<close>.
\<close>

record session =
  user :: "string option"
  current_record_index :: "int option"
  hnh_reason_text :: "string option"
  hnh_used_sentences :: "string set option"
  type_reason_text :: "string option"
  type_used_sentences :: "string set option"
  non_human_subcategories :: "string list option"
  navigate_to_pmid :: "string option"

datatype action = Keep_Original | Change_Classification

fun action_label :: "action \<Rightarrow> string" where
  "action_label Keep_Original = ''Keep Original''"
| "action_label Change_Classification = ''Change Classification''"

text \<open>
  What the widgets deliver to one run of the script: the buttons pressed, the radio and
  select-box choices, the value of the multiselect, and the clock. A select box over the
  abstract's sentences delivers the position chosen.
\<close>

record widgets =
  btn_previous :: bool
  btn_next :: bool
  hnh_action_radio :: action
  hnh_new_class :: string
  non_human_multiselect :: "string list"
  hnh_sentence_select :: nat
  add_hnh_sentence :: bool
  type_action_radio :: action
  type_new_class :: string
  type_sentence_select :: nat
  add_type_sentence :: bool
  btn_save :: bool
  now :: string

text \<open>
  \<^verbatim>\<open>st.selectbox(label, options=...)\<close>: one of the options, the first by default, and
  \<^verbatim>\<open>None\<close> when there is no option.
\<close>

definition selectbox :: "string list \<Rightarrow> nat \<Rightarrow> string option" where
  "selectbox opts i =
     (if opts = [] then None else if i < length opts then Some (opts ! i) else Some (hd opts))"

datatype outcome = Rerun | Completed | Stopped | Raised

text \<open>
  One run of the script: the session state and the spreadsheet it leaves, the notices it
  showed, the judgment it built if it reached the save handler, and how it ended
  (\<^verbatim>\<open>st.rerun()\<close>, the end of the script, an early \<^verbatim>\<open>return\<close>, an exception).
\<close>

record run =
  run_session :: session
  run_store :: store
  run_notices :: "notice list"
  run_response :: "(string \<times> string) list option"
  run_outcome :: outcome

section \<open>\<^verbatim>\<open>main\<close>: navigation\<close>

text \<open>Lines 220 to 227: the index is created at 0 and brought into the data frame.\<close>

definition clamp_index :: "int \<Rightarrow> session \<Rightarrow> session" where
  "clamp_index total_records st =
     (let i0 = (case current_record_index st of None \<Rightarrow> 0 | Some i \<Rightarrow> i);
          i1 = (if i0 \<ge> total_records then (if total_records > 0 then total_records - 1 else 0)
                else i0);
          i2 = (if i1 < 0 then 0 else i1)
      in st\<lparr>current_record_index := Some i2\<rparr>)"

text \<open>The index of a state in which the key exists.\<close>

definition cur_index :: "session \<Rightarrow> int" where
  "cur_index st = (case current_record_index st of None \<Rightarrow> 0 | Some i \<Rightarrow> i)"

text \<open>
  The five deletions that the Previous button (lines 235 to 244), the Next button (lines 250
  to 259) and the save handler (lines 454 to 463) each spell out.
\<close>

definition clear_drafts :: "session \<Rightarrow> session" where
  "clear_drafts st =
     st\<lparr>hnh_reason_text := None, hnh_used_sentences := None,
        type_reason_text := None, type_used_sentences := None,
        non_human_subcategories := None\<rparr>"

text \<open>Lines 231 to 245 and 246 to 260, for a button that was pressed while enabled.\<close>

definition previous_click :: "session \<Rightarrow> session" where
  "previous_click st = clear_drafts (st\<lparr>current_record_index := Some (cur_index st - 1)\<rparr>)"

definition next_click :: "session \<Rightarrow> session" where
  "next_click st = clear_drafts (st\<lparr>current_record_index := Some (cur_index st + 1)\<rparr>)"

text \<open>
  Lines 467 to 482. The rows whose \<^verbatim>\<open>PMID\<close> equals the target are looked up; the first
  position becomes the index and the script reruns, or a warning is shown. Nothing but the
  index and the flag is written. A data frame without the column raises.
\<close>

definition matching_indices :: "dataframe \<Rightarrow> string \<Rightarrow> nat list" where
  "matching_indices full_df target_pmid =
     filter (\<lambda>i. df_pmid full_df (df_values full_df ! i) = target_pmid)
       [0 ..< length (df_values full_df)]"

definition navigate :: "dataframe \<Rightarrow> session \<Rightarrow> session \<times> notice list \<times> outcome" where
  "navigate full_df st =
     (case navigate_to_pmid st of
        None \<Rightarrow> (st, [], Completed)
      | Some target_pmid \<Rightarrow>
          if ''PMID'' \<notin> set (df_columns full_df) then (st, [], Raised)
          else
            (case matching_indices full_df target_pmid of
               i # _ \<Rightarrow> (st\<lparr>current_record_index := Some (int i), navigate_to_pmid := None\<rparr>,
                         [], Rerun)
             | [] \<Rightarrow> (st\<lparr>navigate_to_pmid := None\<rparr>, [PMID_not_found], Completed)))"

section \<open>\<^verbatim>\<open>main\<close>: evidence selection and the two classifications\<close>

text \<open>Lines 292 to 295.\<close>

definition init_used_sentences :: "session \<Rightarrow> session" where
  "init_used_sentences st =
     (let st1 = (if hnh_used_sentences st = None then st\<lparr>hnh_used_sentences := Some {}\<rparr> else st)
      in if type_used_sentences st1 = None then st1\<lparr>type_used_sentences := Some {}\<rparr> else st1)"

text \<open>
  The used set and the draft of an axis are created empty before they are read (lines 292
  to 295, 354 and 393), so an absent key reads as the value it is created with.
\<close>

definition used_of :: "string set option \<Rightarrow> string set" where
  "used_of u = (case u of None \<Rightarrow> {} | Some x \<Rightarrow> x)"

definition draft_of :: "string option \<Rightarrow> string" where
  "draft_of t = (case t of None \<Rightarrow> [] | Some x \<Rightarrow> x)"

text \<open>
  Lines 357 to 364 and 396 to 403: the handlers of the two buttons that add the selected
  sentence. A selection that is \<^verbatim>\<open>None\<close> or empty, or that is in the used set, does
  nothing. The second component says that \<^verbatim>\<open>st.rerun()\<close> was called.
\<close>

definition add_hnh_sentence_click :: "string option \<Rightarrow> session \<Rightarrow> session \<times> bool" where
  "add_hnh_sentence_click selected st =
     (let used = used_of (hnh_used_sentences st);
          text = draft_of (hnh_reason_text st)
      in case selected of
           None \<Rightarrow> (st, False)
         | Some sentence \<Rightarrow>
             if sentence \<noteq> [] \<and> sentence \<notin> used then
               (st\<lparr>hnh_used_sentences := Some (insert sentence used),
                   hnh_reason_text :=
                     Some (if text \<noteq> [] then text @ [CHR 0x0A] @ sentence else sentence)\<rparr>,
                True)
             else (st, False))"

definition add_type_sentence_click :: "string option \<Rightarrow> session \<Rightarrow> session \<times> bool" where
  "add_type_sentence_click selected st =
     (let used = used_of (type_used_sentences st);
          text = draft_of (type_reason_text st)
      in case selected of
           None \<Rightarrow> (st, False)
         | Some sentence \<Rightarrow>
             if sentence \<noteq> [] \<and> sentence \<notin> used then
               (st\<lparr>type_used_sentences := Some (insert sentence used),
                   type_reason_text :=
                     Some (if text \<noteq> [] then text @ [CHR 0x0A] @ sentence else sentence)\<rparr>,
                True)
             else (st, False))"

text \<open>
  Lines 331 to 374. Under Change Classification the new class is the select box's; when it
  is \<^verbatim>\<open>Non-Human\<close> the multiselect is shown, and a widget with a key holds its value in
  the session state under that key. Under Keep Original the new class is the original one
  and the axis's draft and used set are deleted. The result: the state, \<^verbatim>\<open>hnh_new\<close>,
  and whether the script reran.
\<close>

definition hnh_section ::
    "widgets \<Rightarrow> string list \<Rightarrow> string \<Rightarrow> session \<Rightarrow> session \<times> string \<times> bool" where
  "hnh_section w sentences original_hnh_class st =
     (if hnh_action_radio w = Change_Classification then
        let hnh_new = hnh_new_class w;
            st1 = (if hnh_new = ''Non-Human''
                   then st\<lparr>non_human_subcategories := Some (non_human_multiselect w)\<rparr> else st);
            selected_hnh_sentence = selectbox sentences (hnh_sentence_select w);
            st2 = (if hnh_reason_text st1 = None then st1\<lparr>hnh_reason_text := Some []\<rparr> else st1)
        in if add_hnh_sentence w
           then (case add_hnh_sentence_click selected_hnh_sentence st2 of
                   (st3, rerun) \<Rightarrow> (st3, hnh_new, rerun))
           else (st2, hnh_new, False)
      else (st\<lparr>hnh_reason_text := None, hnh_used_sentences := None\<rparr>, original_hnh_class, False))"

text \<open>Lines 379 to 413, the same for the dataset type, which has no subcategories.\<close>

definition type_section ::
    "widgets \<Rightarrow> string list \<Rightarrow> string \<Rightarrow> session \<Rightarrow> session \<times> string \<times> bool" where
  "type_section w sentences original_type st =
     (if type_action_radio w = Change_Classification then
        let type_new = type_new_class w;
            selected_type_sentence = selectbox sentences (type_sentence_select w);
            st2 = (if type_reason_text st = None then st\<lparr>type_reason_text := Some []\<rparr> else st)
        in if add_type_sentence w
           then (case add_type_sentence_click selected_type_sentence st2 of
                   (st3, rerun) \<Rightarrow> (st3, type_new, rerun))
           else (st2, type_new, False)
      else (st\<lparr>type_reason_text := None, type_used_sentences := None\<rparr>, original_type, False))"

section \<open>\<^verbatim>\<open>main\<close>: progress, the save handler and the script\<close>

text \<open>Lines 209 to 211: the three metrics, as Python integers.\<close>

definition progress :: "dataframe \<Rightarrow> string set \<Rightarrow> int \<times> int \<times> int" where
  "progress full_df validated_pmids =
     (let total_records = int (length (df_values full_df));
          completed_count = int (card validated_pmids);
          remaining_count = total_records - completed_count
      in (total_records, completed_count, remaining_count))"

text \<open>
  Lines 500 to 508, in the progress expander: the remaining records, those of the data set
  whose identity is not among the judged ones, are listed when the remaining count is
  positive; otherwise the message \<^verbatim>\<open>All records completed.\<close> is shown, which is
  \<open>None\<close> here.
\<close>

definition remaining_section :: "dataframe \<Rightarrow> string set \<Rightarrow> int \<Rightarrow> row list option" where
  "remaining_section full_df validated_pmids remaining_count =
     (if remaining_count > 0
      then Some (filter (\<lambda>r. df_pmid full_df r \<notin> validated_pmids) (df_values full_df))
      else None)"

text \<open>\<^verbatim>\<open>', '.join(xs)\<close>.\<close>

fun join_comma :: "string list \<Rightarrow> string" where
  "join_comma [] = []"
| "join_comma [x] = x"
| "join_comma (x # y # ys) = x @ '', '' @ join_comma (y # ys)"

text \<open>
  Lines 418 to 441: the dictionary \<^verbatim>\<open>response\<close>, its keys in insertion order. The
  reasons come from the session's drafts under Change Classification and from the record
  otherwise; the subcategories are added when \<^verbatim>\<open>hnh_new\<close> is \<^verbatim>\<open>Non-Human\<close> and the
  session state has the key.
\<close>

definition response ::
    "string \<Rightarrow> widgets \<Rightarrow> string list \<Rightarrow> row \<Rightarrow> string \<Rightarrow> string \<Rightarrow> session \<Rightarrow> (string \<times> string) list" where
  "response u w cols current_pmid hnh_new type_new st =
     (let original_hnh_class = series_get cols current_pmid ''Human_NonHuman_Classification'' ''Unclear'';
          original_hnh_reason = series_get cols current_pmid ''Human_NonHuman_Reason'' [];
          original_type = series_get cols current_pmid ''Dataset_Type'' ''Unclear'';
          original_type_reason = series_get cols current_pmid ''Dataset_Type_Reason'' [];
          hnh_reason_to_save =
            (if hnh_action_radio w = Change_Classification
             then (case hnh_reason_text st of Some t \<Rightarrow> t | None \<Rightarrow> original_hnh_reason)
             else original_hnh_reason);
          type_reason_to_save =
            (if type_action_radio w = Change_Classification
             then (case type_reason_text st of Some t \<Rightarrow> t | None \<Rightarrow> original_type_reason)
             else original_type_reason)
      in [(''user'', u),
          (''timestamp'', now w),
          (''PMID'', series_get cols current_pmid ''PMID'' []),
          (''Title'', series_get cols current_pmid ''Title'' []),
          (''Abstract'', series_get cols current_pmid ''Abstract'' []),
          (''original_Human_NonHuman_Classification'', original_hnh_class),
          (''original_Human_NonHuman_Reason'', original_hnh_reason),
          (''original_Dataset_Type'', original_type),
          (''original_Dataset_Type_Reason'', original_type_reason),
          (''hnh_action'', action_label (hnh_action_radio w)),
          (''hnh_new_classification'', hnh_new),
          (''hnh_new_reason'', hnh_reason_to_save),
          (''type_action'', action_label (type_action_radio w)),
          (''type_new_classification'', type_new),
          (''type_new_reason'', type_reason_to_save)]
         @ (case non_human_subcategories st of
              Some subs \<Rightarrow>
                if hnh_new = ''Non-Human'' then [(''non_human_subcategories'', join_comma subs)]
                else []
            | None \<Rightarrow> []))"

text \<open>\<^verbatim>\<open>pd.DataFrame([response])\<close>: one row, the keys as columns.\<close>

definition response_df :: "(string \<times> string) list \<Rightarrow> dataframe" where
  "response_df r = \<lparr>df_columns = map fst r, df_values = [map snd r]\<rparr>"

text \<open>
  Lines 416 to 465. The method returns nothing, so the handler goes on in the same way
  whatever the method reported: the index moves on, capped at the last record, the drafts
  are cleared and the script reruns. When the method raises, the rest of the handler does
  not run.
\<close>

definition save_click ::
    "faults \<Rightarrow> store \<Rightarrow> string \<Rightarrow> widgets \<Rightarrow> string list \<Rightarrow> row \<Rightarrow> int \<Rightarrow> string \<Rightarrow> string
      \<Rightarrow> notice list \<Rightarrow> session \<Rightarrow> run" where
  "save_click f s u w cols current_pmid total_records hnh_new type_new ns st =
     (let r = response u w cols current_pmid hnh_new type_new st
      in case add_new_worksheet_and_write f s (response_df r) (''Validation_'' @ u) of
           (s', ns', raised) \<Rightarrow>
             if raised then
               \<lparr>run_session = st, run_store = s', run_notices = ns @ ns',
                run_response = Some r, run_outcome = Raised\<rparr>
             else
               let i = cur_index st + 1;
                  at_end = (i \<ge> total_records);
                  i' = (if at_end then (if total_records > 0 then total_records - 1 else 0) else i)
               in \<lparr>run_session = clear_drafts (st\<lparr>current_record_index := Some i'\<rparr>),
                   run_store = s',
                   run_notices = ns @ ns' @ (if at_end then [End_of_records] else []),
                   run_response = Some r, run_outcome = Rerun\<rparr>)"

text \<open>
  The record on display: the row at the index after lines 220 to 227
  (\<^verbatim>\<open>full_df.iloc[st.session_state.current_record_index]\<close>).
\<close>

definition current_record :: "dataframe \<Rightarrow> session \<Rightarrow> row" where
  "current_record full_df st =
     df_values full_df ! nat (cur_index (clamp_index (int (length (df_values full_df))) st))"

text \<open>
  Lines 262 to 413: the record on display, the sentences of its abstract, the used sets
  created if absent, and the two classification sections in order. The result: the state,
  \<^verbatim>\<open>hnh_new\<close>, \<^verbatim>\<open>type_new\<close>, and whether a section called \<^verbatim>\<open>st.rerun()\<close>;
  the script stops there, so after a rerun in the first section the second has not run and
  there is no \<^verbatim>\<open>type_new\<close>.
\<close>

definition render :: "dataframe \<Rightarrow> widgets \<Rightarrow> row \<Rightarrow> session \<Rightarrow> session \<times> string \<times> string \<times> bool" where
  "render full_df w current_pmid st =
     (let cols = df_columns full_df;
          original_hnh_class =
            series_get cols current_pmid ''Human_NonHuman_Classification'' ''Unclear'';
          original_type = series_get cols current_pmid ''Dataset_Type'' ''Unclear'';
          sentences = abstract_sentences (series_get cols current_pmid ''Abstract'' []);
          st2 = init_used_sentences st
      in case hnh_section w sentences original_hnh_class st2 of
           (st3, hnh_new, rerun1) \<Rightarrow>
             if rerun1 then (st3, hnh_new, [], True)
             else
               (case type_section w sentences original_type st3 of
                  (st4, type_new, rerun2) \<Rightarrow> (st4, hnh_new, type_new, rerun2)))"

text \<open>
  \<^verbatim>\<open>main()\<close> for a reviewer who is logged in, with the data frame that
  \<^verbatim>\<open>load_data\<close> returned. An abstract that is \<^verbatim>\<open>None\<close> raises in
  \<^verbatim>\<open>re.split\<close> at line 288, and an original reason that is \<^verbatim>\<open>None\<close> raises in
  \<^verbatim>\<open>.lower()\<close> at line 299 or 300, after the used sets were created. The highlighted
  abstract, the text areas and the progress expander only display; they are left out.
\<close>

definition main :: "faults \<Rightarrow> store \<Rightarrow> dataframe \<Rightarrow> widgets \<Rightarrow> session \<Rightarrow> run" where
  "main f s full_df w st =
     (case user st of
        None \<Rightarrow>
          \<lparr>run_session = st, run_store = s, run_notices = [], run_response = None,
           run_outcome = Stopped\<rparr>
      | Some u \<Rightarrow>
          if df_empty full_df then
            \<lparr>run_session = st, run_store = s, run_notices = [No_data_found],
             run_response = None, run_outcome = Stopped\<rparr>
          else
            case get_validated_pmids (progress_get_fails f) s (''Validation_'' @ u) of
              (validated_pmids, ns0) \<Rightarrow>
            case progress full_df validated_pmids of
              (total_records, completed_count, remaining_count) \<Rightarrow>
            let ns = ns0 @ [Progress total_records completed_count remaining_count];
                st1 = clamp_index total_records st
            in if btn_previous w \<and> cur_index st1 \<noteq> 0 then
                 \<lparr>run_session = previous_click st1, run_store = s, run_notices = ns,
                  run_response = None, run_outcome = Rerun\<rparr>
               else if btn_next w \<and> \<not> cur_index st1 \<ge> total_records - 1 then
                 \<lparr>run_session = next_click st1, run_store = s, run_notices = ns,
                  run_response = None, run_outcome = Rerun\<rparr>
               else
                 let current_pmid = current_record full_df st;
                     cols = df_columns full_df
                 in if cell_is_none cols current_pmid ''Abstract'' then
                      \<lparr>run_session = st1, run_store = s, run_notices = ns,
                       run_response = None, run_outcome = Raised\<rparr>
                    else if cell_is_none cols current_pmid ''Human_NonHuman_Reason''
                         \<or> cell_is_none cols current_pmid ''Dataset_Type_Reason'' then
                      \<lparr>run_session = init_used_sentences st1, run_store = s, run_notices = ns,
                       run_response = None, run_outcome = Raised\<rparr>
                    else
                    case render full_df w current_pmid st1 of
                      (st4, hnh_new, type_new, rerun) \<Rightarrow>
                    if rerun then
                      \<lparr>run_session = st4, run_store = s, run_notices = ns,
                       run_response = None, run_outcome = Rerun\<rparr>
                    else if btn_save w then
                      save_click f s u w (df_columns full_df) current_pmid total_records
                        hnh_new type_new ns st4
                    else
                      case navigate full_df st4 of
                        (st5, ns5, out) \<Rightarrow>
                          \<lparr>run_session = st5, run_store = s, run_notices = ns @ ns5,
                           run_response = None, run_outcome = out\<rparr>)"

section \<open>The ledger over retried saves\<close>

text \<open>
  The identities of a worksheet as \<^verbatim>\<open>add_new_worksheet_and_write\<close> and
  \<^verbatim>\<open>get_validated_pmids\<close> see them: none when it is empty or its header has no
  \<^verbatim>\<open>PMID\<close>.
\<close>

definition ledger_pmids :: "table \<Rightarrow> string list" where
  "ledger_pmids vals =
     (if vals \<noteq> [] \<and> ''PMID'' \<in> set (hd vals) then pmid_column vals else [])"

text \<open>At most one row for every identity in the worksheet of that name, if there is one.\<close>

definition ledger_unique :: "store \<Rightarrow> string \<Rightarrow> bool" where
  "ledger_unique s name = (case s name of None \<Rightarrow> True | Some vals \<Rightarrow> distinct (ledger_pmids vals))"

text \<open>
  The rows of a batch are appended as they are, so they are read back under the ledger's
  header: the frame and the ledger have to keep \<^verbatim>\<open>PMID\<close> in the same position.
\<close>

definition aligned :: "store \<Rightarrow> string \<Rightarrow> dataframe \<Rightarrow> bool" where
  "aligned s name df =
     (case s name of
        None \<Rightarrow> True
      | Some vals \<Rightarrow>
          vals \<noteq> [] \<and> ''PMID'' \<in> set (hd vals) \<longrightarrow>
            index_of (hd vals) ''PMID'' = index_of (df_columns df) ''PMID'')"

text \<open>A batch with the identity column, full rows and no identity twice.\<close>

definition batch_distinct :: "dataframe \<Rightarrow> bool" where
  "batch_distinct df \<longleftrightarrow>
     ''PMID'' \<in> set (df_columns df) \<and> df_ok df \<and> distinct (map (df_pmid df) (df_values df))"

text \<open>The same batch saved again and again, each attempt with its own transport faults.\<close>

fun retry_saves :: "faults list \<Rightarrow> store \<Rightarrow> dataframe \<Rightarrow> string \<Rightarrow> store" where
  "retry_saves [] s df name = s"
| "retry_saves (f # fs) s df name =
     retry_saves fs (fst (add_new_worksheet_and_write f s df name)) df name"

section \<open>Concrete inputs\<close>

definition no_faults :: faults where
  "no_faults = \<lparr>progress_get_fails = False, get_fails = False, append_fails = False,
     add_sheet_fails = False, update_fails = False\<rparr>"

definition empty_store :: store where
  "empty_store = (\<lambda>name. None)"

text \<open>Two records; the first was classified \<^verbatim>\<open>Non-Human\<close>, the second \<^verbatim>\<open>Human\<close>.\<close>

definition two_records :: dataframe where
  "two_records =
     \<lparr>df_columns = [''PMID'', ''Title'', ''Abstract'', ''Human_NonHuman_Classification'',
         ''Human_NonHuman_Reason'', ''Dataset_Type'', ''Dataset_Type_Reason''],
      df_values =
        [[''101'', ''Soil'', ''Soil was sampled. Was it wet? Yes!'', ''Non-Human'', ''Soil was sampled.'',
          ''Original'', ''Yes!''],
         [''102'', ''Blood'', ''Blood was drawn. It was stored.'', ''Human'', ''Blood was drawn.'',
          ''Used'', ''It was stored.'']]\<rparr>"

text \<open>A fresh session of the reviewer \<^verbatim>\<open>ann\<close>, and widgets left as they come up.\<close>

definition fresh_session :: session where
  "fresh_session =
     \<lparr>user = Some ''ann'', current_record_index = None, hnh_reason_text = None,
      hnh_used_sentences = None, type_reason_text = None, type_used_sentences = None,
      non_human_subcategories = None, navigate_to_pmid = None\<rparr>"

definition idle_widgets :: widgets where
  "idle_widgets =
     \<lparr>btn_previous = False, btn_next = False, hnh_action_radio = Keep_Original,
      hnh_new_class = ''Human'', non_human_multiselect = [], hnh_sentence_select = 0,
      add_hnh_sentence = False, type_action_radio = Keep_Original, type_new_class = ''Original'',
      type_sentence_select = 0, add_type_sentence = False, btn_save = False,
      now = ''2024-01-01 00:00:00''\<rparr>"

text \<open>
  A session in the middle of changing the first record's class: one sentence used, a draft,
  and subcategories chosen.
\<close>

definition drafting_session :: session where
  "drafting_session =
     fresh_session\<lparr>current_record_index := Some 0,
       hnh_reason_text := Some ''Soil was sampled.'',
       hnh_used_sentences := Some {''Soil was sampled.''},
       type_reason_text := Some ''Yes!'',
       type_used_sentences := Some {''Yes!''},
       non_human_subcategories := Some [''Plants'']\<rparr>"

definition changing_widgets :: widgets where
  "changing_widgets =
     idle_widgets\<lparr>hnh_action_radio := Change_Classification, hnh_new_class := ''Non-Human'',
       non_human_multiselect := [''Plants''], type_action_radio := Change_Classification,
       type_new_class := ''Mixed''\<rparr>"

text \<open>
  The ledger of \<^verbatim>\<open>ann\<close> with one judgment, for the record of the given identity; a
  worksheet of that name whose header has no \<^verbatim>\<open>PMID\<close>; a batch of judgments for
  the given identities, in the ledger's columns.
\<close>

definition ledger_with :: "string \<Rightarrow> store" where
  "ledger_with pmid =
     empty_store(''Validation_ann'' \<mapsto>
       [[''user'', ''timestamp'', ''PMID''], [''ann'', ''2023-12-31 09:00:00'', pmid]])"

definition malformed_ledger :: store where
  "malformed_ledger =
     empty_store(''Validation_ann'' \<mapsto>
       [[''user'', ''timestamp'', ''record''], [''ann'', ''2023-12-31 09:00:00'', ''101'']])"

text \<open>A ledger whose three judgments are for records that the data set does not have.\<close>

definition foreign_ledger :: store where
  "foreign_ledger =
     empty_store(''Validation_ann'' \<mapsto>
       [[''user'', ''timestamp'', ''PMID''],
        [''ann'', ''2023-12-31 09:00:00'', ''777''],
        [''ann'', ''2023-12-31 09:05:00'', ''888''],
        [''ann'', ''2023-12-31 09:10:00'', ''999'']])"

definition batch_of :: "string list \<Rightarrow> dataframe" where
  "batch_of pmids =
     \<lparr>df_columns = [''user'', ''timestamp'', ''PMID''],
      df_values = map (\<lambda>p. [''ann'', ''2024-01-01 00:00:00'', p]) pmids\<rparr>"

section \<open>Unfolding a run\<close>

lemmas run_defs =
  main_def render_def hnh_section_def type_section_def init_used_sentences_def
  add_hnh_sentence_click_def add_type_sentence_click_def selectbox_def
  clamp_index_def cur_index_def current_record_def previous_click_def next_click_def
  clear_drafts_def navigate_def matching_indices_def save_click_def response_def
  response_df_def add_new_worksheet_and_write_def create_and_write_def values_get_def
  values_append_def add_sheet_def values_update_def get_validated_pmids_def progress_def
  pmid_column_def df_pmid_def df_empty_def series_get_def cell_is_none_def used_of_def
  draft_of_def Let_def

lemmas input_defs =
  no_faults_def empty_store_def two_records_def fresh_session_def idle_widgets_def
  drafting_session_def changing_widgets_def ledger_with_def malformed_ledger_def
  foreign_ledger_def batch_of_def


section \<open>The sentence split\<close>

lemmas text_defs =
  abstract_sentences_def abstract_sentences_points_def sentences_by_def strip_by_def
  is_space_def is_terminal_def py_space_def py_terminal_def

lemma split_point_in_append_left: "split_point_in sp tm xs \<Longrightarrow> split_point_in sp tm (xs @ ys)"
  by (induction sp tm xs rule: split_point_in.induct) auto

lemma split_point_in_append_right: "split_point_in sp tm ys \<Longrightarrow> split_point_in sp tm (xs @ ys)"
proof (induction xs)
  case Nil
  then show ?case by simp
next
  case (Cons x xs)
  then show ?case by (cases "xs @ ys") auto
qed

lemma split_point_in_snoc2:
  "split_point_in sp tm (xs @ [c, d]) \<longleftrightarrow> split_point_in sp tm (xs @ [c]) \<or> (tm c \<and> sp d)"
  by (induction sp tm xs rule: split_point_in.induct) auto

lemma split_point_in_take1 [simp]: "\<not> split_point_in sp tm (take (Suc 0) xs)"
  by (cases xs) auto

lemma weave_Cons_Cons: "weave ((c # p) # qs) seps = c # weave (p # qs) seps"
  by (cases seps) auto

lemma hd_weave: "p \<noteq> [] \<Longrightarrow> hd (weave (p # qs) seps) = hd p"
  by (cases seps) auto

subsection \<open>Trimming\<close>

text \<open>The trimmed string is the string between two runs of white space.\<close>

lemma strip_by_decomp:
  "p = takeWhile sp p @ strip_by sp p @ rev (takeWhile sp (rev (dropWhile sp p)))"
proof -
  let ?t = "dropWhile sp p"
  have "rev ?t = takeWhile sp (rev ?t) @ dropWhile sp (rev ?t)" by simp
  then have "?t = strip_by sp p @ rev (takeWhile sp (rev ?t))"
    unfolding strip_by_def by (metis rev_append rev_rev_ident)
  moreover have "p = takeWhile sp p @ ?t" by simp
  ultimately show ?thesis by metis
qed

lemma strip_by_ends:
  assumes "strip_by sp p \<noteq> []"
  shows "\<not> sp (hd (strip_by sp p))" and "\<not> sp (last (strip_by sp p))"
proof -
  let ?t = "dropWhile sp p"
  let ?u = "dropWhile sp (rev ?t)"
  have s: "strip_by sp p = rev ?u" by (simp add: strip_by_def)
  with assms have u: "?u \<noteq> []" by simp
  then have "\<not> sp (hd ?u)" by (rule hd_dropWhile)
  with u s show "\<not> sp (last (strip_by sp p))" by (simp add: last_rev)
  have "rev ?t = takeWhile sp (rev ?t) @ ?u" by simp
  then have t: "?t = rev ?u @ rev (takeWhile sp (rev ?t))"
    by (metis rev_append rev_rev_ident)
  from u have r: "rev ?u \<noteq> []" by simp
  with t have h: "hd (rev ?u) = hd ?t" by (metis hd_append2)
  from t r have "?t \<noteq> []" by (metis append_is_Nil_conv)
  then have "\<not> sp (hd ?t)" by (rule hd_dropWhile)
  with h s show "\<not> sp (hd (strip_by sp p))" by simp
qed

lemma trimmed_strip_by: "trimmed sp p (strip_by sp p)"
proof -
  have "\<forall>c \<in> set (takeWhile sp p). sp c" by (auto dest: set_takeWhileD)
  moreover have "\<forall>c \<in> set (rev (takeWhile sp (rev (dropWhile sp p)))). sp c"
    by (auto dest: set_takeWhileD)
  moreover have "strip_by sp p = [] \<or> (\<not> sp (hd (strip_by sp p)) \<and> \<not> sp (last (strip_by sp p)))"
    using strip_by_ends [of sp p] by blast
  ultimately show ?thesis
    unfolding trimmed_def using strip_by_decomp [of p sp] by blast
qed

text \<open>Trimming is the only way to satisfy the description: the fragment is determined.\<close>

lemma trimmed_unique:
  assumes "trimmed sp p f"
  shows "f = strip_by sp p"
proof -
  from assms obtain l r where p: "p = l @ f @ r"
    and l: "\<forall>c \<in> set l. sp c" and r: "\<forall>c \<in> set r. sp c"
    and f: "f = [] \<or> (\<not> sp (hd f) \<and> \<not> sp (last f))"
    unfolding trimmed_def by blast
  show ?thesis
  proof (cases "f = []")
    case True
    have "\<And>c. c \<in> set (l @ f @ r) \<Longrightarrow> sp c" using l r True by auto
    then have d: "dropWhile sp (l @ f @ r) = []" by (metis dropWhile_eq_Nil_conv)
    have "strip_by sp (l @ f @ r) = []" unfolding strip_by_def d by simp
    with True p show ?thesis by simp
  next
    case False
    with f have hf: "\<not> sp (hd f)" and lf: "\<not> sp (last f)" by simp_all
    from False hf have d1: "dropWhile sp (f @ r) = f @ r"
      by (simp add: dropWhile_eq_self_iff)
    have "dropWhile sp p = dropWhile sp (f @ r)"
      unfolding p by (rule dropWhile_append2) (use l in auto)
    with d1 have t: "dropWhile sp p = f @ r" by simp
    have "dropWhile sp (rev r @ rev f) = dropWhile sp (rev f)"
      by (rule dropWhile_append2) (use r in auto)
    moreover from False lf have "dropWhile sp (rev f) = rev f"
      by (simp add: dropWhile_eq_self_iff hd_rev)
    ultimately show ?thesis by (simp add: strip_by_def t)
  qed
qed

lemma list_all2_trimmed_strip_by: "list_all2 (trimmed sp) ps (map (strip_by sp) ps)"
  by (induction ps) (simp_all add: trimmed_strip_by)

lemma list_all2_trimmed_unique: "list_all2 (trimmed sp) ps fs \<Longrightarrow> fs = map (strip_by sp) ps"
  by (induction ps fs rule: list_all2_induct) (simp_all add: trimmed_unique)

lemma strip_by_no_split_point:
  "\<not> split_point_in sp tm s \<Longrightarrow> \<not> split_point_in sp tm (strip_by sp s)"
  using strip_by_decomp [of s sp] split_point_in_append_left split_point_in_append_right
  by metis

subsection \<open>The pieces\<close>

lemma re_split_by_not_Nil [simp]: "re_split_by sp tm cur rest \<noteq> []"
  by (induction sp tm cur rest rule: re_split_by.induct) auto

text \<open>The text is the pieces with runs of white space between them.\<close>

lemma re_split_by_weave:
  "\<exists>seps. length (re_split_by sp tm cur rest) = Suc (length seps)
     \<and> cur @ rest = weave (re_split_by sp tm cur rest) seps
     \<and> (\<forall>s \<in> set seps. s \<noteq> [] \<and> (\<forall>c \<in> set s. sp c))"
proof (induction sp tm cur rest rule: re_split_by.induct)
  case (1 sp tm cur)
  show ?case by (rule exI [of _ "[]"]) simp
next
  case (2 sp tm cur c cs)
  show ?case
  proof (cases "tm c \<and> cs \<noteq> [] \<and> sp (hd cs)")
    case True
    let ?R = "re_split_by sp tm [] (dropWhile sp cs)"
    from 2(1) [OF True] obtain seps where
      len: "length ?R = Suc (length seps)" and w: "[] @ dropWhile sp cs = weave ?R seps"
      and a: "\<forall>s \<in> set seps. s \<noteq> [] \<and> (\<forall>c \<in> set s. sp c)"
      by blast
    let ?s = "takeWhile sp cs"
    from True have ne: "?s \<noteq> []" by (cases cs) auto
    have sp: "\<forall>c \<in> set ?s. sp c" by (auto dest: set_takeWhileD)
    have "weave ((cur @ [c]) # ?R) (?s # seps) = (cur @ [c]) @ ?s @ dropWhile sp cs"
      using w by simp
    then have "cur @ c # cs = weave ((cur @ [c]) # ?R) (?s # seps)" by simp
    with True len a ne sp show ?thesis
      by (intro exI [of _ "?s # seps"]) simp
  next
    case False
    then have "re_split_by sp tm cur (c # cs) = re_split_by sp tm (cur @ [c]) cs"
      by auto
    with 2(2) [OF False] show ?thesis by simp
  qed
qed

text \<open>Every piece but the last ends where the split was made: in a terminal character.\<close>

lemma re_split_by_butlast_terminal:
  "p \<in> set (butlast (re_split_by sp tm cur rest)) \<Longrightarrow> p \<noteq> [] \<and> tm (last p)"
proof (induction sp tm cur rest rule: re_split_by.induct)
  case (1 sp tm cur)
  then show ?case by simp
next
  case (2 sp tm cur c cs)
  then show ?case by (auto split: if_splits)
qed

lemma hd_re_split_by:
  "cur @ rest \<noteq> [] \<Longrightarrow>
     hd (re_split_by sp tm cur rest) \<noteq> [] \<and> hd (hd (re_split_by sp tm cur rest)) = hd (cur @ rest)"
proof (induction sp tm cur rest rule: re_split_by.induct)
  case (1 sp tm cur)
  then show ?case by simp
next
  case (2 sp tm cur c cs)
  then show ?case by (cases cur) auto
qed

text \<open>A separator is the whole run: no later piece begins with white space.\<close>

lemma re_split_by_tl_starts:
  "p \<in> set (tl (re_split_by sp tm cur rest)) \<Longrightarrow> p = [] \<or> \<not> sp (hd p)"
proof (induction sp tm cur rest rule: re_split_by.induct)
  case (1 sp tm cur)
  then show ?case by simp
next
  case (2 sp tm cur c cs)
  show ?case
  proof (cases "tm c \<and> cs \<noteq> [] \<and> sp (hd cs)")
    case True
    let ?r = "dropWhile sp cs"
    let ?R = "re_split_by sp tm [] ?r"
    from 2(3) True have "p \<in> set ?R" by simp
    moreover have "?R = hd ?R # tl ?R" by simp
    ultimately have "p = hd ?R \<or> p \<in> set (tl ?R)" by (metis set_ConsD)
    then show ?thesis
    proof
      assume p: "p = hd ?R"
      show ?thesis
      proof (cases "?r = []")
        case True
        have "?R = [[]]" unfolding True by simp
        with p show ?thesis by simp
      next
        case False
        then have "\<not> sp (hd ?r)" by (rule hd_dropWhile)
        moreover from False have "hd (hd ?R) = hd ([] @ ?r)"
          using hd_re_split_by [of "[]" ?r sp tm] by simp
        ultimately show ?thesis using p by simp
      qed
    next
      assume "p \<in> set (tl ?R)"
      with 2(1) [OF True] show ?thesis .
    qed
  next
    case False
    then have "re_split_by sp tm cur (c # cs) = re_split_by sp tm (cur @ [c]) cs"
      by auto
    with 2(2) [OF False] 2(3) show ?thesis by simp
  qed
qed

text \<open>No piece of the split contains a split point: every one of them was taken.\<close>

lemma re_split_by_no_split_point:
  "\<not> split_point_in sp tm (cur @ take 1 rest) \<Longrightarrow> p \<in> set (re_split_by sp tm cur rest) \<Longrightarrow>
     \<not> split_point_in sp tm p"
proof (induction sp tm cur rest rule: re_split_by.induct)
  case (1 sp tm cur)
  then show ?case by simp
next
  case (2 sp tm cur c cs)
  show ?case
  proof (cases "tm c \<and> cs \<noteq> [] \<and> sp (hd cs)")
    case True
    with 2 show ?thesis by (auto simp: take_Suc)
  next
    case False
    have "\<not> split_point_in sp tm ((cur @ [c]) @ take 1 cs)"
    proof (cases cs)
      case Nil
      with 2(3) show ?thesis by simp
    next
      case (Cons d ds)
      with 2(3) False show ?thesis by (simp add: split_point_in_snoc2)
    qed
    with 2 False show ?thesis by simp
  qed
qed

lemma split_spec_re_split_by: "split_spec sp tm a (re_split_by sp tm [] a)"
proof -
  let ?ps = "re_split_by sp tm [] a"
  from re_split_by_weave [of sp tm "[]" a] obtain seps where
    "length ?ps = Suc (length seps)" "a = weave ?ps seps"
    "\<forall>s \<in> set seps. s \<noteq> [] \<and> (\<forall>c \<in> set s. sp c)"
    by auto
  moreover have "\<forall>p \<in> set (butlast ?ps). p \<noteq> [] \<and> tm (last p)"
    using re_split_by_butlast_terminal by blast
  moreover have "\<forall>p \<in> set (tl ?ps). p = [] \<or> \<not> sp (hd p)"
    using re_split_by_tl_starts by blast
  moreover have "\<not> split_point_in sp tm ([] @ take 1 a)" by (cases a) auto
  then have "\<forall>p \<in> set ?ps. \<not> split_point_in sp tm p"
    using re_split_by_no_split_point by blast
  ultimately show ?thesis unfolding split_spec_def by blast
qed

text \<open>
  The description leaves no choice: pieces that satisfy it are the pieces the code returns.
  The statement is about a call in the middle of the scan, with the piece read so far.
\<close>

lemma re_split_by_unique_aux:
  "rest = weave (p # qs) seps \<Longrightarrow> length qs = length seps \<Longrightarrow>
   \<forall>s \<in> set seps. s \<noteq> [] \<and> (\<forall>c \<in> set s. sp c) \<Longrightarrow>
   qs \<noteq> [] \<longrightarrow> p \<noteq> [] \<and> tm (last p) \<Longrightarrow>
   \<forall>q \<in> set (butlast qs). q \<noteq> [] \<and> tm (last q) \<Longrightarrow>
   \<forall>q \<in> set qs. q = [] \<or> \<not> sp (hd q) \<Longrightarrow>
   \<not> split_point_in sp tm p \<Longrightarrow>
   \<forall>q \<in> set qs. \<not> split_point_in sp tm q \<Longrightarrow>
   re_split_by sp tm cur rest = (cur @ p) # qs"
proof (induction sp tm cur rest arbitrary: p qs seps rule: re_split_by.induct)
  case (1 sp tm cur)
  have "p = [] \<and> qs = []"
  proof (cases seps)
    case Nil
    with 1(1,2) show ?thesis by simp
  next
    case (Cons s ss)
    with 1(2) obtain q qs' where "qs = q # qs'" by (cases qs) auto
    with Cons 1(1,3) show ?thesis by simp
  qed
  then show ?case by simp
next
  case (2 sp tm cur c cs)
  have p_ne: "p \<noteq> []"
  proof
    assume e: "p = []"
    with 2(6) have "qs = []" by blast
    with 2(4) have "seps = []" by simp
    with e 2(3) show False by simp
  qed
  then obtain c' p' where p: "p = c' # p'" by (cases p) auto
  with 2(3) have c: "c' = c" and cs: "cs = weave (p' # qs) seps"
    by (simp_all add: weave_Cons_Cons)
  show ?case
  proof (cases "p' = []")
    case False
    then obtain d p'' where p': "p' = d # p''" by (cases p') auto
    from cs False have "hd cs = hd p'" by (simp add: hd_weave)
    with 2(9) p c p' have no: "\<not> (tm c \<and> cs \<noteq> [] \<and> sp (hd cs))" by simp
    from 2(9) p p' have sp': "\<not> split_point_in sp tm p'" by simp
    from 2(6) p False have l: "qs \<noteq> [] \<longrightarrow> p' \<noteq> [] \<and> tm (last p')" by simp
    have "re_split_by sp tm (cur @ [c]) cs = ((cur @ [c]) @ p') # qs"
      using cs 2(4) 2(5) l 2(7) 2(8) sp' 2(10) by (rule 2(2) [OF no])
    moreover from no have "re_split_by sp tm cur (c # cs) = re_split_by sp tm (cur @ [c]) cs"
      by auto
    ultimately show ?thesis using p c by simp
  next
    case True
    show ?thesis
    proof (cases qs)
      case Nil
      with 2(4) have "seps = []" by simp
      with Nil True cs have "cs = []" by simp
      with Nil True p c show ?thesis by simp
    next
      case (Cons q qs')
      with 2(4) obtain s ss where seps: "seps = s # ss" by (cases seps) auto
      from 2(6) Cons p True c have tc: "tm c" by simp
      from 2(5) seps have s: "s \<noteq> []" "\<forall>x \<in> set s. sp x" by simp_all
      from cs True Cons seps have cs': "cs = s @ weave (q # qs') ss" by simp
      with s have cut: "tm c \<and> cs \<noteq> [] \<and> sp (hd cs)" using tc by (cases s) auto
      let ?w = "weave (q # qs') ss"
      from 2(4) Cons seps have len: "length qs' = length ss" by simp
      have w: "dropWhile sp ?w = ?w"
      proof (cases "q = []")
        case True
        with 2(7) Cons have "qs' = []" by (cases qs') auto
        with len True show ?thesis by simp
      next
        case False
        with 2(8) Cons have "\<not> sp (hd q)" by auto
        with False show ?thesis by (simp add: dropWhile_eq_self_iff hd_weave weave_Cons_Cons)
      qed
      have "dropWhile sp cs = dropWhile sp ?w"
        unfolding cs' by (rule dropWhile_append2) (use s(2) in auto)
      with w have dw: "dropWhile sp cs = ?w" by simp
      from 2(5) seps have a: "\<forall>s \<in> set ss. s \<noteq> [] \<and> (\<forall>c \<in> set s. sp c)" by simp
      from 2(7) Cons have l: "qs' \<noteq> [] \<longrightarrow> q \<noteq> [] \<and> tm (last q)" by (cases qs') auto
      from 2(7) Cons have b: "\<forall>x \<in> set (butlast qs'). x \<noteq> [] \<and> tm (last x)"
        by (cases qs') auto
      from 2(8) Cons have d: "\<forall>x \<in> set qs'. x = [] \<or> \<not> sp (hd x)" by simp
      from 2(10) Cons have sq: "\<not> split_point_in sp tm q"
        and sqs: "\<forall>x \<in> set qs'. \<not> split_point_in sp tm x" by simp_all
      have "re_split_by sp tm [] (dropWhile sp cs) = ([] @ q) # qs'"
        using dw len a l b d sq sqs by (rule 2(1) [OF cut])
      moreover from cut have "re_split_by sp tm cur (c # cs) =
          (cur @ [c]) # re_split_by sp tm [] (dropWhile sp cs)"
        by simp
      ultimately show ?thesis using p c True Cons by simp
    qed
  qed
qed

lemma split_spec_unique:
  assumes "split_spec sp tm a ps"
  shows "ps = re_split_by sp tm [] a"
proof -
  from assms obtain seps where len: "length ps = Suc (length seps)" and a: "a = weave ps seps"
    and A: "\<forall>s \<in> set seps. s \<noteq> [] \<and> (\<forall>c \<in> set s. sp c)"
    and B: "\<forall>p \<in> set (butlast ps). p \<noteq> [] \<and> tm (last p)"
    and D: "\<forall>p \<in> set (tl ps). p = [] \<or> \<not> sp (hd p)"
    and C: "\<forall>p \<in> set ps. \<not> split_point_in sp tm p"
    unfolding split_spec_def by blast
  from len obtain p qs where ps: "ps = p # qs" by (cases ps) auto
  have "re_split_by sp tm [] a = ([] @ p) # qs"
  proof (rule re_split_by_unique_aux)
    show "a = weave (p # qs) seps" using a ps by simp
    show "length qs = length seps" using len ps by simp
    show "\<forall>s \<in> set seps. s \<noteq> [] \<and> (\<forall>c \<in> set s. sp c)" by (rule A)
    show "qs \<noteq> [] \<longrightarrow> p \<noteq> [] \<and> tm (last p)" using B ps by (cases qs) auto
    show "\<forall>q \<in> set (butlast qs). q \<noteq> [] \<and> tm (last q)" using B ps by (cases qs) auto
    show "\<forall>q \<in> set qs. q = [] \<or> \<not> sp (hd q)" using D ps by simp
    show "\<not> split_point_in sp tm p" using C ps by simp
    show "\<forall>q \<in> set qs. \<not> split_point_in sp tm q" using C ps by simp
  qed
  with ps show ?thesis by simp
qed

subsection \<open>The sentences\<close>

lemma sentences_by_alt:
  "sentences_by sp tm a = filter (\<lambda>s. s \<noteq> []) (map (strip_by sp) (re_split_by sp tm [] a))"
proof -
  have "concat (map (\<lambda>s. if strip_by sp s \<noteq> [] then [strip_by sp s] else []) ps)
      = filter (\<lambda>s. s \<noteq> []) (map (strip_by sp) ps)" for ps
    by (induction ps) auto
  then show ?thesis by (simp add: sentences_by_def)
qed

text \<open>The code returns the sentences of the description, and nothing else is.\<close>

lemma sentences_spec_iff: "sentences_spec sp tm a out \<longleftrightarrow> out = sentences_by sp tm a"
proof
  assume "sentences_spec sp tm a out"
  then obtain ps fs where "split_spec sp tm a ps" and "list_all2 (trimmed sp) ps fs"
    and out: "out = filter (\<lambda>f. f \<noteq> []) fs"
    unfolding sentences_spec_def by blast
  then have "ps = re_split_by sp tm [] a" and "fs = map (strip_by sp) ps"
    by (simp_all add: split_spec_unique list_all2_trimmed_unique)
  with out show "out = sentences_by sp tm a" by (simp add: sentences_by_alt)
next
  assume "out = sentences_by sp tm a"
  then have "out = filter (\<lambda>f. f \<noteq> []) (map (strip_by sp) (re_split_by sp tm [] a))"
    by (simp add: sentences_by_alt)
  with split_spec_re_split_by [of sp tm a]
    list_all2_trimmed_strip_by [of sp "re_split_by sp tm [] a"]
  show "sentences_spec sp tm a out" unfolding sentences_spec_def by blast
qed

lemma sentences_by_fragment:
  assumes "f \<in> set (sentences_by sp tm a)"
  shows "f \<noteq> [] \<and> \<not> sp (hd f) \<and> \<not> sp (last f) \<and> \<not> split_point_in sp tm f"
proof -
  from assms obtain p where p: "p \<in> set (re_split_by sp tm [] a)" and f: "f = strip_by sp p"
    and ne: "f \<noteq> []"
    by (auto simp: sentences_by_alt)
  have "\<not> split_point_in sp tm ([] @ take 1 a)" by (cases a) auto
  then have "\<not> split_point_in sp tm p" using p by (rule re_split_by_no_split_point)
  then have "\<not> split_point_in sp tm f" unfolding f by (rule strip_by_no_split_point)
  with ne f strip_by_ends [of sp p] show ?thesis by simp
qed

lemma abstract_sentences_not_Nil: "s \<in> set (abstract_sentences a) \<Longrightarrow> s \<noteq> []"
  by (simp add: abstract_sentences_def sentences_by_alt)

text \<open>
  Claim C7. The sentence split is a function of the abstract alone. On the abstract
  \<^verbatim>\<open>Cats are mammals. Do fish sleep? Yes they do!\<close> it gives the three sentences, each
  with its terminal character; on an abstract with white space at its ends and two spaces
  between its sentences it gives the sentences without that white space. In general its
  result is exactly what the description says and nothing else: the abstract split at every
  terminal character followed by white space and only there, the white space of the split
  dropped, each piece trimmed at both ends and the empty ones left out; so every fragment
  is non-empty, neither begins nor ends with white space and has no split point left. The
  same holds for an abstract given by its code points, with all the white space Python
  knows, as the ideographic space.
\<close>

theorem abstract_sentences_split:
  "abstract_sentences ''Cats are mammals. Do fish sleep? Yes they do!'' =
     [''Cats are mammals.'', ''Do fish sleep?'', ''Yes they do!'']
   \<and> abstract_sentences '' Hello world.  Next one. '' = [''Hello world.'', ''Next one.'']
   \<and> (sentences_spec is_space is_terminal a out \<longleftrightarrow> out = abstract_sentences a)
   \<and> (\<forall>f \<in> set (abstract_sentences a).
         f \<noteq> [] \<and> \<not> is_space (hd f) \<and> \<not> is_space (last f)
         \<and> \<not> split_point_in is_space is_terminal f)
   \<and> (sentences_spec py_space py_terminal t out' \<longleftrightarrow> out' = abstract_sentences_points t)
   \<and> abstract_sentences_points [0x48, 0x69, 0x2E, 0x3000, 0x4F, 0x6B]
       = [[0x48, 0x69, 0x2E], [0x4F, 0x6B]]"
proof -
  have e1: "abstract_sentences ''Cats are mammals. Do fish sleep? Yes they do!'' =
     [''Cats are mammals.'', ''Do fish sleep?'', ''Yes they do!'']"
    by (simp add: text_defs)
  have e2: "abstract_sentences '' Hello world.  Next one. '' = [''Hello world.'', ''Next one.'']"
    by (simp add: text_defs)
  have e3: "abstract_sentences_points [0x48, 0x69, 0x2E, 0x3000, 0x4F, 0x6B]
       = [[0x48, 0x69, 0x2E], [0x4F, 0x6B]]"
    by (simp add: text_defs)
  have s1: "sentences_spec is_space is_terminal a out \<longleftrightarrow> out = abstract_sentences a"
    unfolding abstract_sentences_def by (rule sentences_spec_iff)
  have s2: "sentences_spec py_space py_terminal t out' \<longleftrightarrow> out' = abstract_sentences_points t"
    unfolding abstract_sentences_points_def by (rule sentences_spec_iff)
  have f: "\<forall>f \<in> set (abstract_sentences a).
         f \<noteq> [] \<and> \<not> is_space (hd f) \<and> \<not> is_space (last f)
         \<and> \<not> split_point_in is_space is_terminal f"
    unfolding abstract_sentences_def using sentences_by_fragment by blast
  from e1 e2 s1 f s2 e3 show ?thesis by (intro conjI)
qed

theorem abstract_sentences_split_witness:
  "sentences_spec is_space is_terminal ''Cats are mammals. Do fish sleep? Yes they do!''
     [''Cats are mammals.'', ''Do fish sleep?'', ''Yes they do!'']
   \<and> ''Do fish sleep?'' \<in> set (abstract_sentences ''Cats are mammals. Do fish sleep? Yes they do!'')
   \<and> \<not> is_space (hd ''Do fish sleep?'') \<and> \<not> is_space (last ''Do fish sleep?'')
   \<and> \<not> split_point_in is_space is_terminal ''Do fish sleep?''
   \<and> sentences_spec py_space py_terminal [0x48, 0x69, 0x2E, 0x3000, 0x4F, 0x6B]
        [[0x48, 0x69, 0x2E], [0x4F, 0x6B]]"
proof -
  let ?a = "''Cats are mammals. Do fish sleep? Yes they do!''"
  let ?out = "[''Cats are mammals.'', ''Do fish sleep?'', ''Yes they do!'']"
  let ?t = "[0x48, 0x69, 0x2E, 0x3000, 0x4F, 0x6B] :: nat list"
  let ?out' = "[[0x48, 0x69, 0x2E], [0x4F, 0x6B]] :: nat list list"
  note th = abstract_sentences_split [where a = ?a and out = ?out and t = ?t and out' = ?out']
  from th have eq: "abstract_sentences ?a = ?out" by (rule conjunct1)
  from th eq have 1: "sentences_spec is_space is_terminal ?a ?out" by simp
  have m: "''Do fish sleep?'' \<in> set (abstract_sentences ?a)" unfolding eq by simp
  from th m have 2: "\<not> is_space (hd ''Do fish sleep?'') \<and> \<not> is_space (last ''Do fish sleep?'')
      \<and> \<not> split_point_in is_space is_terminal ''Do fish sleep?''"
    by blast
  from th have 3: "sentences_spec py_space py_terminal ?t ?out'" by simp
  from 1 m 2 3 show ?thesis by (intro conjI) simp_all
qed


section \<open>Adding a sentence to a reason\<close>

text \<open>
  Claim C9. For both axes, every session state and every sentence of an abstract: adding
  the sentence does nothing when it is in the axis's used set; otherwise it enters the used
  set and the draft, after a line feed when the draft was not empty and as the draft when
  it was, and nothing else changes. Adding the same sentence twice is adding it once.
\<close>

theorem add_sentence_once:
  assumes "s \<in> set (abstract_sentences a)"
  shows "(s \<in> used_of (hnh_used_sentences st) \<longrightarrow>
            add_hnh_sentence_click (Some s) st = (st, False))
       \<and> (s \<notin> used_of (hnh_used_sentences st) \<longrightarrow>
            add_hnh_sentence_click (Some s) st =
              (st\<lparr>hnh_used_sentences := Some (insert s (used_of (hnh_used_sentences st))),
                  hnh_reason_text :=
                    Some (if draft_of (hnh_reason_text st) = [] then s
                          else draft_of (hnh_reason_text st) @ [CHR 0x0A] @ s)\<rparr>, True))
       \<and> fst (add_hnh_sentence_click (Some s) (fst (add_hnh_sentence_click (Some s) st)))
            = fst (add_hnh_sentence_click (Some s) st)
       \<and> (s \<in> used_of (type_used_sentences st) \<longrightarrow>
            add_type_sentence_click (Some s) st = (st, False))
       \<and> (s \<notin> used_of (type_used_sentences st) \<longrightarrow>
            add_type_sentence_click (Some s) st =
              (st\<lparr>type_used_sentences := Some (insert s (used_of (type_used_sentences st))),
                  type_reason_text :=
                    Some (if draft_of (type_reason_text st) = [] then s
                          else draft_of (type_reason_text st) @ [CHR 0x0A] @ s)\<rparr>, True))
       \<and> fst (add_type_sentence_click (Some s) (fst (add_type_sentence_click (Some s) st)))
            = fst (add_type_sentence_click (Some s) st)"
proof -
  from assms have ne: "s \<noteq> []" by (rule abstract_sentences_not_Nil)
  have h1: "s \<in> used_of (hnh_used_sentences st) \<longrightarrow>
      add_hnh_sentence_click (Some s) st = (st, False)"
    by (simp add: add_hnh_sentence_click_def Let_def)
  have h2: "s \<notin> used_of (hnh_used_sentences st) \<longrightarrow>
      add_hnh_sentence_click (Some s) st =
        (st\<lparr>hnh_used_sentences := Some (insert s (used_of (hnh_used_sentences st))),
            hnh_reason_text :=
              Some (if draft_of (hnh_reason_text st) = [] then s
                    else draft_of (hnh_reason_text st) @ [CHR 0x0A] @ s)\<rparr>, True)"
    using ne by (simp add: add_hnh_sentence_click_def Let_def)
  have h3: "fst (add_hnh_sentence_click (Some s) (fst (add_hnh_sentence_click (Some s) st)))
      = fst (add_hnh_sentence_click (Some s) st)"
    by (simp add: add_hnh_sentence_click_def used_of_def Let_def)
  have t1: "s \<in> used_of (type_used_sentences st) \<longrightarrow>
      add_type_sentence_click (Some s) st = (st, False)"
    by (simp add: add_type_sentence_click_def Let_def)
  have t2: "s \<notin> used_of (type_used_sentences st) \<longrightarrow>
      add_type_sentence_click (Some s) st =
        (st\<lparr>type_used_sentences := Some (insert s (used_of (type_used_sentences st))),
            type_reason_text :=
              Some (if draft_of (type_reason_text st) = [] then s
                    else draft_of (type_reason_text st) @ [CHR 0x0A] @ s)\<rparr>, True)"
    using ne by (simp add: add_type_sentence_click_def Let_def)
  have t3: "fst (add_type_sentence_click (Some s) (fst (add_type_sentence_click (Some s) st)))
      = fst (add_type_sentence_click (Some s) st)"
    by (simp add: add_type_sentence_click_def used_of_def Let_def)
  from h1 h2 h3 t1 t2 t3 show ?thesis by (intro conjI)
qed

theorem add_sentence_once_witness:
  "''Was it wet?'' \<in> set (abstract_sentences ''Soil was sampled. Was it wet? Yes!'')
   \<and> ''Was it wet?'' \<notin> used_of (hnh_used_sentences drafting_session)
   \<and> hnh_reason_text (fst (add_hnh_sentence_click (Some ''Was it wet?'') drafting_session))
       = Some (''Soil was sampled.'' @ [CHR 0x0A] @ ''Was it wet?'')
   \<and> hnh_used_sentences (fst (add_hnh_sentence_click (Some ''Was it wet?'') drafting_session))
       = Some {''Was it wet?'', ''Soil was sampled.''}
   \<and> ''Yes!'' \<in> set (abstract_sentences ''Soil was sampled. Was it wet? Yes!'')
   \<and> ''Yes!'' \<in> used_of (type_used_sentences drafting_session)
   \<and> add_type_sentence_click (Some ''Yes!'') drafting_session = (drafting_session, False)"
proof -
  let ?a = "''Soil was sampled. Was it wet? Yes!''"
  have a: "abstract_sentences ?a = [''Soil was sampled.'', ''Was it wet?'', ''Yes!'']"
    by (simp add: text_defs)
  have m1: "''Was it wet?'' \<in> set (abstract_sentences ?a)" unfolding a by simp
  have m2: "''Yes!'' \<in> set (abstract_sentences ?a)" unfolding a by simp
  have u1: "''Was it wet?'' \<notin> used_of (hnh_used_sentences drafting_session)"
    by (simp add: drafting_session_def fresh_session_def used_of_def)
  have u2: "''Yes!'' \<in> used_of (type_used_sentences drafting_session)"
    by (simp add: drafting_session_def fresh_session_def used_of_def)
  have d: "draft_of (hnh_reason_text drafting_session) = ''Soil was sampled.''"
    by (simp add: drafting_session_def fresh_session_def draft_of_def)
  have u: "used_of (hnh_used_sentences drafting_session) = {''Soil was sampled.''}"
    by (simp add: drafting_session_def fresh_session_def used_of_def)
  from add_sentence_once [OF m1, of drafting_session] u1
  have "add_hnh_sentence_click (Some ''Was it wet?'') drafting_session =
      (drafting_session\<lparr>hnh_used_sentences := Some (insert ''Was it wet?'' (used_of (hnh_used_sentences drafting_session))),
         hnh_reason_text := Some (if draft_of (hnh_reason_text drafting_session) = [] then ''Was it wet?''
                    else draft_of (hnh_reason_text drafting_session) @ [CHR 0x0A] @ ''Was it wet?'')\<rparr>, True)"
    by blast
  then have r1: "hnh_reason_text (fst (add_hnh_sentence_click (Some ''Was it wet?'') drafting_session))
       = Some (''Soil was sampled.'' @ [CHR 0x0A] @ ''Was it wet?'')"
    and r2: "hnh_used_sentences (fst (add_hnh_sentence_click (Some ''Was it wet?'') drafting_session))
       = Some {''Was it wet?'', ''Soil was sampled.''}"
    by (simp_all add: d u)
  from add_sentence_once [OF m2, of drafting_session] u2
  have r3: "add_type_sentence_click (Some ''Yes!'') drafting_session = (drafting_session, False)"
    by blast
  from m1 u1 r1 r2 m2 u2 r3 show ?thesis by (intro conjI)
qed


section \<open>Reading the judged identities, and the progress counts\<close>

lemma main_shows_progress:
  assumes "user st = Some u" and "\<not> df_empty full_df"
  shows "\<exists>c. Progress (int (length (df_values full_df))) c (int (length (df_values full_df)) - c)
            \<in> set (run_notices (main f s full_df w st))"
proof -
  obtain V ns0 where g: "get_validated_pmids (progress_get_fails f) s (''Validation_'' @ u) = (V, ns0)"
    by (cases "get_validated_pmids (progress_get_fails f) s (''Validation_'' @ u)")
  let ?N = "int (length (df_values full_df))"
  have p: "progress full_df V = (?N, int (card V), ?N - int (card V))"
    by (simp add: progress_def Let_def)
  have "Progress ?N (int (card V)) (?N - int (card V)) \<in> set (run_notices (main f s full_df w st))"
    using assms g p
    by (simp add: main_def save_click_def Let_def split: prod.splits)
  then show ?thesis by blast
qed

text \<open>
  Claim C10. Reading the judged identities never raises: when the read fails, in transport
  or because there is no worksheet of that name, the result is the empty set with a
  warning; for an empty worksheet and for a header without \<^verbatim>\<open>PMID\<close> it is the empty
  set; and a run of the script for a logged-in reviewer over a non-empty data set shows the
  three counts whatever the read did.
\<close>

theorem get_validated_pmids_total:
  "((fails \<or> s name = None) \<longrightarrow> get_validated_pmids fails s name = ({}, [Could_not_read]))
   \<and> ((\<not> fails \<and> s name = Some []) \<longrightarrow> get_validated_pmids fails s name = ({}, []))
   \<and> ((\<not> fails \<and> s name = Some vals \<and> ''PMID'' \<notin> set (hd vals)) \<longrightarrow>
         get_validated_pmids fails s name = ({}, []))
   \<and> ((user st = Some u \<and> \<not> df_empty full_df) \<longrightarrow>
         (\<exists>c. Progress (int (length (df_values full_df))) c (int (length (df_values full_df)) - c)
               \<in> set (run_notices (main f s full_df w st))))"
  using main_shows_progress [of st u full_df f s w]
  by (auto simp: get_validated_pmids_def values_get_def)

theorem get_validated_pmids_total_witness:
  "get_validated_pmids True (empty_store(''Validation_ann'' \<mapsto> [[''PMID''], [''101'']])) ''Validation_ann''
     = ({}, [Could_not_read])
   \<and> get_validated_pmids False empty_store ''Validation_ann'' = ({}, [Could_not_read])
   \<and> get_validated_pmids False (empty_store(''Validation_ann'' \<mapsto> [])) ''Validation_ann'' = ({}, [])
   \<and> get_validated_pmids False (empty_store(''Validation_ann'' \<mapsto> [[''user''], [''ann'']]))
        ''Validation_ann'' = ({}, [])
   \<and> (\<exists>c. Progress 2 c (2 - c)
         \<in> set (run_notices (main (no_faults\<lparr>progress_get_fails := True\<rparr>) empty_store two_records
                  idle_widgets fresh_session)))"
proof -
  let ?n = "''Validation_ann''"
  have 1: "get_validated_pmids True (empty_store(?n \<mapsto> [[''PMID''], [''101'']])) ?n = ({}, [Could_not_read])"
    using get_validated_pmids_total [where fails = True
        and s = "empty_store(?n \<mapsto> [[''PMID''], [''101'']])" and name = ?n]
    by simp
  have 2: "get_validated_pmids False empty_store ?n = ({}, [Could_not_read])"
    using get_validated_pmids_total [where fails = False and s = empty_store and name = ?n]
    by (simp add: empty_store_def)
  have 3: "get_validated_pmids False (empty_store(?n \<mapsto> [])) ?n = ({}, [])"
    using get_validated_pmids_total [where fails = False and s = "empty_store(?n \<mapsto> [])"
        and name = ?n]
    by simp
  have 4: "get_validated_pmids False (empty_store(?n \<mapsto> [[''user''], [''ann'']])) ?n = ({}, [])"
    using get_validated_pmids_total [where fails = False
        and s = "empty_store(?n \<mapsto> [[''user''], [''ann'']])" and name = ?n
        and vals = "[[''user''], [''ann'']]"]
    by simp
  have u: "user fresh_session = Some ''ann''" by (simp add: fresh_session_def)
  have e: "\<not> df_empty two_records" by (simp add: df_empty_def two_records_def)
  have l: "int (length (df_values two_records)) = 2" by (simp add: two_records_def)
  have 5: "\<exists>c. Progress 2 c (2 - c)
         \<in> set (run_notices (main (no_faults\<lparr>progress_get_fails := True\<rparr>) empty_store two_records
                  idle_widgets fresh_session))"
    using get_validated_pmids_total [where st = fresh_session and u = "''ann''"
        and full_df = two_records and f = "no_faults\<lparr>progress_get_fails := True\<rparr>"
        and s = empty_store and w = idle_widgets] u e
    unfolding l by blast
  from 1 2 3 4 5 show ?thesis by (intro conjI)
qed

text \<open>What the tracker computes, whatever the snapshot.\<close>

lemma progress_values:
  "progress full_df validated_pmids
     = (int (length (df_values full_df)), int (card validated_pmids),
        int (length (df_values full_df)) - int (card validated_pmids))"
  by (simp add: progress_def Let_def)

text \<open>
  Claim C6 at a ledger with judgments for three records that the data set of two records
  does not have. The claim gives completed 0, the size of the intersection, and remaining
  2. The run shows total 2, completed 3 and remaining \<open>-1\<close>: line 210 counts the
  identities of the ledger, not those of them that are in the data set. With the count not
  positive the expander shows that all records are completed, while the list of line 503,
  taken by membership in the ledger, is both records.
\<close>

theorem progress_counts_foreign_ledger:
  "run_notices (main no_faults foreign_ledger two_records idle_widgets fresh_session)
     = [Progress 2 3 (- 1)]
   \<and> fst (get_validated_pmids False foreign_ledger ''Validation_ann'') = {''777'', ''888'', ''999''}
   \<and> int (card ({''777'', ''888'', ''999''}
          \<inter> set (map (df_pmid two_records) (df_values two_records)))) = 0
   \<and> remaining_section two_records {''777'', ''888'', ''999''} (- 1) = None
   \<and> filter (\<lambda>r. df_pmid two_records r \<notin> {''777'', ''888'', ''999''}) (df_values two_records)
       = df_values two_records"
proof -
  have v: "fst (get_validated_pmids False foreign_ledger ''Validation_ann'')
      = {''777'', ''888'', ''999''}"
    by (simp add: get_validated_pmids_def values_get_def pmid_column_def foreign_ledger_def
        empty_store_def)
  have n: "run_notices (main no_faults foreign_ledger two_records idle_widgets fresh_session)
     = [Progress 2 3 (- 1)]"
    by (simp add: run_defs input_defs)
  have i: "int (card ({''777'', ''888'', ''999''}
          \<inter> set (map (df_pmid two_records) (df_values two_records)))) = 0"
    by (simp add: two_records_def df_pmid_def)
  have r: "remaining_section two_records {''777'', ''888'', ''999''} (- 1) = None"
    by (simp add: remaining_section_def)
  have f: "filter (\<lambda>r. df_pmid two_records r \<notin> {''777'', ''888'', ''999''}) (df_values two_records)
       = df_values two_records"
    by (simp add: two_records_def df_pmid_def)
  from n v i r f show ?thesis by (intro conjI)
qed


section \<open>The state in which the save handler starts\<close>

lemma init_used_sentences_fields:
  "hnh_used_sentences (init_used_sentences st) = Some (used_of (hnh_used_sentences st))"
  "type_used_sentences (init_used_sentences st) = Some (used_of (type_used_sentences st))"
  "hnh_reason_text (init_used_sentences st) = hnh_reason_text st"
  "type_reason_text (init_used_sentences st) = type_reason_text st"
  "non_human_subcategories (init_used_sentences st) = non_human_subcategories st"
  "current_record_index (init_used_sentences st) = current_record_index st"
  "navigate_to_pmid (init_used_sentences st) = navigate_to_pmid st"
  "user (init_used_sentences st) = user st"
  by (auto simp: init_used_sentences_def used_of_def Let_def)

lemma hnh_section_no_rerun:
  assumes "hnh_section w sents orig st = (st', hn, False)"
  shows "hn = (if hnh_action_radio w = Change_Classification then hnh_new_class w else orig)"
    and "hnh_reason_text st' =
           (if hnh_action_radio w = Change_Classification
            then Some (draft_of (hnh_reason_text st)) else None)"
    and "hnh_used_sentences st' =
           (if hnh_action_radio w = Change_Classification then hnh_used_sentences st else None)"
    and "non_human_subcategories st' =
           (if hnh_action_radio w = Change_Classification \<and> hnh_new_class w = ''Non-Human''
            then Some (non_human_multiselect w) else non_human_subcategories st)"
    and "type_reason_text st' = type_reason_text st"
    and "type_used_sentences st' = type_used_sentences st"
    and "current_record_index st' = current_record_index st"
    and "navigate_to_pmid st' = navigate_to_pmid st"
    and "user st' = user st"
  using assms
  by (auto simp: hnh_section_def add_hnh_sentence_click_def draft_of_def Let_def
      split: if_splits option.splits)

lemma type_section_no_rerun:
  assumes "type_section w sents orig st = (st', tn, False)"
  shows "tn = (if type_action_radio w = Change_Classification then type_new_class w else orig)"
    and "type_reason_text st' =
           (if type_action_radio w = Change_Classification
            then Some (draft_of (type_reason_text st)) else None)"
    and "type_used_sentences st' =
           (if type_action_radio w = Change_Classification then type_used_sentences st else None)"
    and "non_human_subcategories st' = non_human_subcategories st"
    and "hnh_reason_text st' = hnh_reason_text st"
    and "hnh_used_sentences st' = hnh_used_sentences st"
    and "current_record_index st' = current_record_index st"
    and "navigate_to_pmid st' = navigate_to_pmid st"
    and "user st' = user st"
  using assms
  by (auto simp: type_section_def add_type_sentence_click_def draft_of_def Let_def
      split: if_splits option.splits)

text \<open>
  When no section reruns, the state after lines 262 to 413 is known field by field: an axis
  under Change Classification has its draft and its used set, created empty if they were
  absent; an axis under Keep Original has neither; the subcategories are the multiselect's
  when it is shown and what the session held otherwise.
\<close>

lemma render_no_rerun:
  assumes "render full_df w current_pmid st = (st4, hn, tn, False)"
  shows "hn = (if hnh_action_radio w = Change_Classification then hnh_new_class w
               else series_get (df_columns full_df) current_pmid
                      ''Human_NonHuman_Classification'' ''Unclear'')"
    and "tn = (if type_action_radio w = Change_Classification then type_new_class w
               else series_get (df_columns full_df) current_pmid ''Dataset_Type'' ''Unclear'')"
    and "hnh_reason_text st4 =
           (if hnh_action_radio w = Change_Classification
            then Some (draft_of (hnh_reason_text st)) else None)"
    and "hnh_used_sentences st4 =
           (if hnh_action_radio w = Change_Classification
            then Some (used_of (hnh_used_sentences st)) else None)"
    and "type_reason_text st4 =
           (if type_action_radio w = Change_Classification
            then Some (draft_of (type_reason_text st)) else None)"
    and "type_used_sentences st4 =
           (if type_action_radio w = Change_Classification
            then Some (used_of (type_used_sentences st)) else None)"
    and "non_human_subcategories st4 =
           (if hnh_action_radio w = Change_Classification \<and> hnh_new_class w = ''Non-Human''
            then Some (non_human_multiselect w) else non_human_subcategories st)"
    and "current_record_index st4 = current_record_index st"
    and "navigate_to_pmid st4 = navigate_to_pmid st"
    and "user st4 = user st"
proof -
  let ?cols = "df_columns full_df"
  let ?sents = "abstract_sentences (series_get ?cols current_pmid ''Abstract'' [])"
  let ?oh = "series_get ?cols current_pmid ''Human_NonHuman_Classification'' ''Unclear''"
  let ?ot = "series_get ?cols current_pmid ''Dataset_Type'' ''Unclear''"
  let ?st2 = "init_used_sentences st"
  obtain st3 hn' r1 where h: "hnh_section w ?sents ?oh ?st2 = (st3, hn', r1)"
    by (cases "hnh_section w ?sents ?oh ?st2")
  obtain st4' tn' r2 where t: "type_section w ?sents ?ot st3 = (st4', tn', r2)"
    by (cases "type_section w ?sents ?ot st3")
  from assms h have r1: "\<not> r1" by (auto simp: render_def Let_def split: if_splits)
  with assms h t have eq: "st4 = st4'" "hn = hn'" "tn = tn'" and r2: "\<not> r2"
    by (auto simp: render_def Let_def)
  from h r1 have h': "hnh_section w ?sents ?oh ?st2 = (st3, hn', False)" by simp
  from t r2 have t': "type_section w ?sents ?ot st3 = (st4', tn', False)" by simp
  note H = hnh_section_no_rerun [OF h'] and T = type_section_no_rerun [OF t']
    and I = init_used_sentences_fields [of st]
  show "hn = (if hnh_action_radio w = Change_Classification then hnh_new_class w else ?oh)"
    using H(1) eq by simp
  show "tn = (if type_action_radio w = Change_Classification then type_new_class w else ?ot)"
    using T(1) eq by simp
  show "hnh_reason_text st4 =
           (if hnh_action_radio w = Change_Classification
            then Some (draft_of (hnh_reason_text st)) else None)"
    using H(2) T(5) I(3) eq by simp
  show "hnh_used_sentences st4 =
           (if hnh_action_radio w = Change_Classification
            then Some (used_of (hnh_used_sentences st)) else None)"
    using H(3) T(6) I(1) eq by simp
  show "type_reason_text st4 =
           (if type_action_radio w = Change_Classification
            then Some (draft_of (type_reason_text st)) else None)"
    using T(2) H(5) I(4) eq by simp
  show "type_used_sentences st4 =
           (if type_action_radio w = Change_Classification
            then Some (used_of (type_used_sentences st)) else None)"
    using T(3) H(6) I(2) eq by simp
  show "non_human_subcategories st4 =
           (if hnh_action_radio w = Change_Classification \<and> hnh_new_class w = ''Non-Human''
            then Some (non_human_multiselect w) else non_human_subcategories st)"
    using T(4) H(4) I(5) eq by simp
  show "current_record_index st4 = current_record_index st"
    using T(7) H(7) I(6) eq by simp
  show "navigate_to_pmid st4 = navigate_to_pmid st"
    using T(8) H(8) I(7) eq by simp
  show "user st4 = user st"
    using T(9) H(9) I(8) eq by simp
qed

lemma clamp_index_fields:
  "hnh_reason_text (clamp_index n st) = hnh_reason_text st"
  "hnh_used_sentences (clamp_index n st) = hnh_used_sentences st"
  "type_reason_text (clamp_index n st) = type_reason_text st"
  "type_used_sentences (clamp_index n st) = type_used_sentences st"
  "non_human_subcategories (clamp_index n st) = non_human_subcategories st"
  "navigate_to_pmid (clamp_index n st) = navigate_to_pmid st"
  "user (clamp_index n st) = user st"
  "current_record_index (clamp_index n st) = Some (cur_index (clamp_index n st))"
  by (simp_all add: clamp_index_def cur_index_def Let_def)

lemma clamp_index_range:
  "0 < n \<Longrightarrow> 0 \<le> cur_index (clamp_index n st) \<and> cur_index (clamp_index n st) < n"
  by (auto simp: clamp_index_def cur_index_def Let_def split: option.splits)

text \<open>
  A run builds a judgment only in the save handler: the reviewer is logged in, the data set
  is not empty, no navigation button and no section took the run, and the handler ran on
  the state that lines 262 to 413 left.
\<close>

lemma main_save:
  assumes "run_response (main f s full_df w st) = Some r"
  obtains u ns st4 hn tn where
    "user st = Some u" and "\<not> df_empty full_df"
    and "render full_df w (current_record full_df st)
           (clamp_index (int (length (df_values full_df))) st) = (st4, hn, tn, False)"
    and "main f s full_df w st =
           save_click f s u w (df_columns full_df) (current_record full_df st)
             (int (length (df_values full_df))) hn tn ns st4"
    and "r = response u w (df_columns full_df) (current_record full_df st) hn tn st4"
proof -
  from assms obtain u where u: "user st = Some u"
    by (cases "user st") (auto simp: main_def)
  from assms u have ne: "\<not> df_empty full_df"
    by (auto simp: main_def split: if_splits)
  let ?N = "int (length (df_values full_df))"
  let ?st1 = "clamp_index ?N st"
  obtain V ns0 where g: "get_validated_pmids (progress_get_fails f) s (''Validation_'' @ u) = (V, ns0)"
    by (cases "get_validated_pmids (progress_get_fails f) s (''Validation_'' @ u)")
  have p: "progress full_df V = (?N, int (card V), ?N - int (card V))"
    by (simp add: progress_def Let_def)
  obtain st4 hn tn rr where rd: "render full_df w (current_record full_df st) ?st1 = (st4, hn, tn, rr)"
    by (cases "render full_df w (current_record full_df st) ?st1") auto
  let ?ns = "ns0 @ [Progress ?N (int (card V)) (?N - int (card V))]"
  from assms u ne g p rd have nr: "\<not> rr"
    by (auto simp: main_def Let_def split: if_splits prod.splits)
  from assms u ne g p rd nr
  have m: "main f s full_df w st =
      save_click f s u w (df_columns full_df) (current_record full_df st) ?N hn tn ?ns st4"
    by (auto simp: main_def Let_def split: if_splits prod.splits)
  with assms have "r = response u w (df_columns full_df) (current_record full_df st) hn tn st4"
    by (auto simp: save_click_def Let_def split: prod.splits if_splits)
  with u ne rd nr m show ?thesis using that by simp
qed

lemma response_new_fields:
  "map_of (response u w cols rec hn tn st) ''hnh_new_classification'' = Some hn"
  "map_of (response u w cols rec hn tn st) ''type_new_classification'' = Some tn"
  "map_of (response u w cols rec hn tn st) ''hnh_new_reason'' =
     Some (if hnh_action_radio w = Change_Classification
           then (case hnh_reason_text st of Some t \<Rightarrow> t
                 | None \<Rightarrow> series_get cols rec ''Human_NonHuman_Reason'' [])
           else series_get cols rec ''Human_NonHuman_Reason'' [])"
  "map_of (response u w cols rec hn tn st) ''type_new_reason'' =
     Some (if type_action_radio w = Change_Classification
           then (case type_reason_text st of Some t \<Rightarrow> t
                 | None \<Rightarrow> series_get cols rec ''Dataset_Type_Reason'' [])
           else series_get cols rec ''Dataset_Type_Reason'' [])"
  by (simp_all add: response_def Let_def)

lemma response_subcategories:
  "''non_human_subcategories'' \<in> set (df_columns (response_df (response u w cols rec hn tn st)))
     \<longleftrightarrow> hn = ''Non-Human'' \<and> non_human_subcategories st \<noteq> None"
  by (cases "non_human_subcategories st") (auto simp: response_def response_df_def Let_def)

lemma response_subcategories_value:
  "hn = ''Non-Human'' \<Longrightarrow> non_human_subcategories st = Some subs \<Longrightarrow>
     map_of (response u w cols rec hn tn st) ''non_human_subcategories'' = Some (join_comma subs)"
  by (simp add: response_def Let_def)

lemma main_response_class:
  assumes "run_response (main f s full_df w st) = Some r"
  shows "map_of r ''hnh_new_classification'' =
           Some (if hnh_action_radio w = Change_Classification then hnh_new_class w
                 else series_get (df_columns full_df) (current_record full_df st)
                        ''Human_NonHuman_Classification'' ''Unclear'')"
proof -
  from assms obtain u ns st4 hn tn where
    rd: "render full_df w (current_record full_df st)
           (clamp_index (int (length (df_values full_df))) st) = (st4, hn, tn, False)"
    and r: "r = response u w (df_columns full_df) (current_record full_df st) hn tn st4"
    by (rule main_save)
  show ?thesis unfolding r using render_no_rerun(1) [OF rd] by (simp add: response_new_fields)
qed

section \<open>Keep Original\<close>

text \<open>
  Claim C4. Whatever the session holds, a judgment built under Keep Original for the
  human/non-human axis has the record's original class as its new class and the record's
  original reason as its new reason; the same holds for the dataset type. The record's
  values are those that line 270 to 273 read, with their fallbacks for a missing column.
\<close>

theorem keep_original_identity:
  assumes "run_response (main f s full_df w st) = Some r"
  shows "(hnh_action_radio w = Keep_Original \<longrightarrow>
            map_of r ''hnh_new_classification'' =
              Some (series_get (df_columns full_df) (current_record full_df st)
                      ''Human_NonHuman_Classification'' ''Unclear'')
          \<and> map_of r ''hnh_new_reason'' =
              Some (series_get (df_columns full_df) (current_record full_df st)
                      ''Human_NonHuman_Reason'' []))
       \<and> (type_action_radio w = Keep_Original \<longrightarrow>
            map_of r ''type_new_classification'' =
              Some (series_get (df_columns full_df) (current_record full_df st)
                      ''Dataset_Type'' ''Unclear'')
          \<and> map_of r ''type_new_reason'' =
              Some (series_get (df_columns full_df) (current_record full_df st)
                      ''Dataset_Type_Reason'' []))"
proof -
  from assms obtain u ns st4 hn tn where
    rd: "render full_df w (current_record full_df st)
           (clamp_index (int (length (df_values full_df))) st) = (st4, hn, tn, False)"
    and r: "r = response u w (df_columns full_df) (current_record full_df st) hn tn st4"
    by (rule main_save)
  note R = render_no_rerun [OF rd]
  show ?thesis unfolding r using R(1) R(2) by (simp add: response_new_fields)
qed

theorem keep_original_identity_witness:
  "\<exists>r. run_response (main no_faults empty_store two_records (idle_widgets\<lparr>btn_save := True\<rparr>)
          drafting_session) = Some r
     \<and> hnh_action_radio (idle_widgets\<lparr>btn_save := True\<rparr>) = Keep_Original
     \<and> type_action_radio (idle_widgets\<lparr>btn_save := True\<rparr>) = Keep_Original
     \<and> hnh_reason_text drafting_session = Some ''Soil was sampled.''
     \<and> map_of r ''hnh_new_classification'' = Some ''Non-Human''
     \<and> map_of r ''hnh_new_reason'' = Some ''Soil was sampled.''
     \<and> map_of r ''type_new_classification'' = Some ''Original''
     \<and> map_of r ''type_new_reason'' = Some ''Yes!''"
proof -
  let ?w = "idle_widgets\<lparr>btn_save := True\<rparr>"
  have "run_response (main no_faults empty_store two_records ?w drafting_session) \<noteq> None"
    by (simp add: run_defs input_defs)
  then obtain r where r: "run_response (main no_faults empty_store two_records ?w drafting_session) = Some r"
    by blast
  have k: "hnh_action_radio ?w = Keep_Original" "type_action_radio ?w = Keep_Original"
    by (simp_all add: idle_widgets_def)
  have d: "hnh_reason_text drafting_session = Some ''Soil was sampled.''"
    by (simp add: drafting_session_def fresh_session_def)
  have v: "series_get (df_columns two_records) (current_record two_records drafting_session)
             ''Human_NonHuman_Classification'' ''Unclear'' = ''Non-Human''"
    "series_get (df_columns two_records) (current_record two_records drafting_session)
             ''Human_NonHuman_Reason'' [] = ''Soil was sampled.''"
    "series_get (df_columns two_records) (current_record two_records drafting_session)
             ''Dataset_Type'' ''Unclear'' = ''Original''"
    "series_get (df_columns two_records) (current_record two_records drafting_session)
             ''Dataset_Type_Reason'' [] = ''Yes!''"
    by (simp_all add: series_get_def current_record_def clamp_index_def cur_index_def
        two_records_def drafting_session_def fresh_session_def Let_def)
  from keep_original_identity [OF r] k
  have "map_of r ''hnh_new_classification'' = Some ''Non-Human''
     \<and> map_of r ''hnh_new_reason'' = Some ''Soil was sampled.''
     \<and> map_of r ''type_new_classification'' = Some ''Original''
     \<and> map_of r ''type_new_reason'' = Some ''Yes!''"
    unfolding v by blast
  with r k d show ?thesis by blast
qed

section \<open>Subcategories\<close>

text \<open>
  Claim C5, as the code has it. The row of a judgment has the subcategories column exactly
  when the new class of the human/non-human axis is \<^verbatim>\<open>Non-Human\<close> and the session
  state holds a subcategory selection, which it does whenever the action is Change
  Classification, the multiselect being shown then, and under Keep Original only if an
  earlier selection is still there. With any other new class the column is absent, whatever
  the session holds. Under Change Classification to \<^verbatim>\<open>Non-Human\<close> the column holds
  the multiselect's values.
\<close>

theorem subcategories_present_iff:
  assumes "run_response (main f s full_df w st) = Some r"
  shows "(''non_human_subcategories'' \<in> set (df_columns (response_df r)) \<longleftrightarrow>
            map_of r ''hnh_new_classification'' = Some ''Non-Human''
            \<and> (hnh_action_radio w = Change_Classification \<or> non_human_subcategories st \<noteq> None))
       \<and> (map_of r ''hnh_new_classification'' \<noteq> Some ''Non-Human'' \<longrightarrow>
            ''non_human_subcategories'' \<notin> set (df_columns (response_df r)))
       \<and> (hnh_action_radio w = Change_Classification
            \<and> map_of r ''hnh_new_classification'' = Some ''Non-Human'' \<longrightarrow>
            map_of r ''non_human_subcategories'' = Some (join_comma (non_human_multiselect w)))"
proof -
  from assms obtain u ns st4 hn tn where
    rd: "render full_df w (current_record full_df st)
           (clamp_index (int (length (df_values full_df))) st) = (st4, hn, tn, False)"
    and r: "r = response u w (df_columns full_df) (current_record full_df st) hn tn st4"
    by (rule main_save)
  note R = render_no_rerun [OF rd]
  have sub: "non_human_subcategories st4 =
      (if hnh_action_radio w = Change_Classification \<and> hnh_new_class w = ''Non-Human''
       then Some (non_human_multiselect w) else non_human_subcategories st)"
    using R(7) by (simp add: clamp_index_fields)
  have hn: "map_of r ''hnh_new_classification'' = Some hn"
    unfolding r by (simp add: response_new_fields)
  have a: "''non_human_subcategories'' \<in> set (df_columns (response_df r)) \<longleftrightarrow>
      hn = ''Non-Human'' \<and> non_human_subcategories st4 \<noteq> None"
    unfolding r by (rule response_subcategories)
  have b: "''non_human_subcategories'' \<in> set (df_columns (response_df r)) \<longleftrightarrow>
      map_of r ''hnh_new_classification'' = Some ''Non-Human''
      \<and> (hnh_action_radio w = Change_Classification \<or> non_human_subcategories st \<noteq> None)"
    unfolding a hn sub using R(1) by (cases "hnh_action_radio w") auto
  have c: "hnh_action_radio w = Change_Classification
            \<and> map_of r ''hnh_new_classification'' = Some ''Non-Human'' \<longrightarrow>
            map_of r ''non_human_subcategories'' = Some (join_comma (non_human_multiselect w))"
  proof
    assume h: "hnh_action_radio w = Change_Classification
            \<and> map_of r ''hnh_new_classification'' = Some ''Non-Human''"
    with hn have n: "hn = ''Non-Human''" by simp
    with h R(1) have "hnh_new_class w = ''Non-Human''" by simp
    with h sub have "non_human_subcategories st4 = Some (non_human_multiselect w)" by simp
    with n show "map_of r ''non_human_subcategories'' = Some (join_comma (non_human_multiselect w))"
      unfolding r by (rule response_subcategories_value)
  qed
  from b c show ?thesis by blast
qed

theorem subcategories_present_iff_witness:
  "(\<exists>r. run_response (main no_faults empty_store two_records (changing_widgets\<lparr>btn_save := True\<rparr>)
           fresh_session) = Some r
      \<and> map_of r ''hnh_new_classification'' = Some ''Non-Human''
      \<and> ''non_human_subcategories'' \<in> set (df_columns (response_df r))
      \<and> map_of r ''non_human_subcategories'' = Some ''Plants'')
   \<and> (\<exists>r. run_response (main no_faults empty_store two_records
             (idle_widgets\<lparr>btn_save := True\<rparr>) (drafting_session\<lparr>current_record_index := Some 1\<rparr>))
           = Some r
      \<and> non_human_subcategories (drafting_session\<lparr>current_record_index := Some 1\<rparr>) = Some [''Plants'']
      \<and> map_of r ''hnh_new_classification'' = Some ''Human''
      \<and> ''non_human_subcategories'' \<notin> set (df_columns (response_df r)))"
proof -
  let ?w1 = "changing_widgets\<lparr>btn_save := True\<rparr>"
  let ?w2 = "idle_widgets\<lparr>btn_save := True\<rparr>"
  let ?st2 = "drafting_session\<lparr>current_record_index := Some 1\<rparr>"
  have "run_response (main no_faults empty_store two_records ?w1 fresh_session) \<noteq> None"
    by (simp add: run_defs input_defs)
  then obtain r1 where r1: "run_response (main no_faults empty_store two_records ?w1 fresh_session) = Some r1"
    by blast
  have c1: "map_of r1 ''hnh_new_classification'' = Some ''Non-Human''"
    using main_response_class [OF r1] by (simp add: changing_widgets_def idle_widgets_def)
  have w1: "hnh_action_radio ?w1 = Change_Classification" "non_human_multiselect ?w1 = [''Plants'']"
    by (simp_all add: changing_widgets_def idle_widgets_def)
  from subcategories_present_iff [OF r1] c1 w1
  have p1: "''non_human_subcategories'' \<in> set (df_columns (response_df r1))
      \<and> map_of r1 ''non_human_subcategories'' = Some ''Plants''"
    by simp
  have "run_response (main no_faults empty_store two_records ?w2 ?st2) \<noteq> None"
    by (simp add: run_defs input_defs)
  then obtain r2 where r2: "run_response (main no_faults empty_store two_records ?w2 ?st2) = Some r2"
    by blast
  have v2: "series_get (df_columns two_records) (current_record two_records ?st2)
             ''Human_NonHuman_Classification'' ''Unclear'' = ''Human''"
    by (simp add: series_get_def current_record_def clamp_index_def cur_index_def
        two_records_def drafting_session_def fresh_session_def Let_def)
  have c2: "map_of r2 ''hnh_new_classification'' = Some ''Human''"
    using main_response_class [OF r2] unfolding v2 by (simp add: idle_widgets_def)
  have s2: "non_human_subcategories ?st2 = Some [''Plants'']"
    by (simp add: drafting_session_def fresh_session_def)
  from subcategories_present_iff [OF r2] c2
  have p2: "''non_human_subcategories'' \<notin> set (df_columns (response_df r2))"
    by simp
  from r1 c1 p1 r2 s2 c2 p2 show ?thesis by blast
qed

text \<open>
  The claim as it is written fails in one direction: in a fresh session, Keep Original on a
  record whose original class is \<^verbatim>\<open>Non-Human\<close> gives a judgment with that new class
  and without the column.
\<close>

theorem subcategories_absent_counterexample:
  "(case run_response (main no_faults empty_store two_records (idle_widgets\<lparr>btn_save := True\<rparr>)
           fresh_session) of
      None \<Rightarrow> False
    | Some r \<Rightarrow> map_of r ''hnh_new_classification'' = Some ''Non-Human''
        \<and> ''non_human_subcategories'' \<notin> set (df_columns (response_df r)))"
  by (simp add: run_defs input_defs)


section \<open>Navigation\<close>

lemma clear_drafts_fields:
  "hnh_reason_text (clear_drafts st) = None"
  "hnh_used_sentences (clear_drafts st) = None"
  "type_reason_text (clear_drafts st) = None"
  "type_used_sentences (clear_drafts st) = None"
  "non_human_subcategories (clear_drafts st) = None"
  "current_record_index (clear_drafts st) = current_record_index st"
  by (simp_all add: clear_drafts_def)


text \<open>
  The jump to a record (lines 471 to 482) writes the index and the flag and nothing else,
  whether the target is found or not.
\<close>

lemma navigate_keeps_drafts:
  assumes "navigate full_df st = (st', ns, out)"
  shows "hnh_reason_text st' = hnh_reason_text st
       \<and> hnh_used_sentences st' = hnh_used_sentences st
       \<and> type_reason_text st' = type_reason_text st
       \<and> type_used_sentences st' = type_used_sentences st
       \<and> non_human_subcategories st' = non_human_subcategories st"
  using assms
  by (auto simp: navigate_def split: option.splits if_splits list.splits)











section \<open>After a save\<close>

text \<open>The method raises only through the unguarded write of the header and the rows.\<close>

lemma add_new_worksheet_and_write_raised:
  "snd (snd (add_new_worksheet_and_write f s df name)) \<Longrightarrow> update_fails f"
  by (auto simp: add_new_worksheet_and_write_def create_and_write_def values_update_def
      add_sheet_def values_get_def Let_def split: option.splits if_splits)

text \<open>
  Claim C3, as the code has it. The method returns nothing to the handler, so a save whose
  persistence call reported a failure, by the warning or by the sheet-creation error, goes
  on like a successful one: whenever the call returns, the script reruns with the drafts,
  the used sets and the subcategories cleared and the index moved on by one, capped at the
  last record. The state of the current record and the index stay only when the call
  raises, which it does only when the write of the header and the rows fails on the
  creation path; the store is then as the call left it.
\<close>

theorem save_then_advance:
  assumes "run_response (main f s full_df w st) = Some r" and "user st = Some u"
  shows "let R = main f s full_df w st;
             N = int (length (df_values full_df));
             i = cur_index (clamp_index N st);
             raised = snd (snd (add_new_worksheet_and_write f s (response_df r) (''Validation_'' @ u)))
         in run_store R = fst (add_new_worksheet_and_write f s (response_df r) (''Validation_'' @ u))
          \<and> (\<not> raised \<longrightarrow>
                run_outcome R = Rerun
              \<and> hnh_reason_text (run_session R) = None
              \<and> hnh_used_sentences (run_session R) = None
              \<and> type_reason_text (run_session R) = None
              \<and> type_used_sentences (run_session R) = None
              \<and> non_human_subcategories (run_session R) = None
              \<and> current_record_index (run_session R) = Some (min (i + 1) (N - 1)))
          \<and> (raised \<longrightarrow>
                update_fails f
              \<and> run_outcome R = Raised
              \<and> current_record_index (run_session R) = Some i
              \<and> (hnh_action_radio w = Change_Classification \<longrightarrow>
                    hnh_reason_text (run_session R) = Some (draft_of (hnh_reason_text st))
                  \<and> hnh_used_sentences (run_session R) = Some (used_of (hnh_used_sentences st)))
              \<and> (type_action_radio w = Change_Classification \<longrightarrow>
                    type_reason_text (run_session R) = Some (draft_of (type_reason_text st))
                  \<and> type_used_sentences (run_session R) = Some (used_of (type_used_sentences st)))
              \<and> non_human_subcategories (run_session R) =
                  (if hnh_action_radio w = Change_Classification \<and> hnh_new_class w = ''Non-Human''
                   then Some (non_human_multiselect w) else non_human_subcategories st))"
proof -
  let ?N = "int (length (df_values full_df))"
  let ?st1 = "clamp_index ?N st"
  let ?i = "cur_index ?st1"
  from assms(1) obtain u' ns st4 hn tn where
    u': "user st = Some u'" and ne: "\<not> df_empty full_df"
    and rd: "render full_df w (current_record full_df st) ?st1 = (st4, hn, tn, False)"
    and m: "main f s full_df w st =
           save_click f s u' w (df_columns full_df) (current_record full_df st) ?N hn tn ns st4"
    and r: "r = response u' w (df_columns full_df) (current_record full_df st) hn tn st4"
    by (rule main_save)
  from u' assms(2) have uu: "u' = u" by simp
  note R = render_no_rerun [OF rd] and C = clamp_index_fields [of ?N st]
  from ne have pos: "0 < ?N" by (simp add: df_empty_def)
  have idx: "cur_index st4 = ?i" using R(8) by (simp add: cur_index_def)
  obtain s' ns' raised where
    a: "add_new_worksheet_and_write f s (response_df r) (''Validation_'' @ u) = (s', ns', raised)"
    by (cases "add_new_worksheet_and_write f s (response_df r) (''Validation_'' @ u)")
  show ?thesis
  proof (cases raised)
    case True
    with a have "update_fails f"
      using add_new_worksheet_and_write_raised [of f s "response_df r" "''Validation_'' @ u"]
      by simp
    moreover from True a m r uu have
      "run_session (main f s full_df w st) = st4"
      "run_store (main f s full_df w st) = s'"
      "run_outcome (main f s full_df w st) = Raised"
      by (simp_all add: save_click_def Let_def)
    ultimately show ?thesis
      using True a R(3-8) C by (simp add: Let_def)
  next
    case False
    have mn: "(if ?N \<le> ?i + 1 then (if 0 < ?N then ?N - 1 else 0) else ?i + 1) = min (?i + 1) (?N - 1)"
      using pos by (simp add: min_def)
    from False a m r uu idx have
      "run_session (main f s full_df w st) =
         clear_drafts (st4\<lparr>current_record_index :=
           Some (if ?N \<le> ?i + 1 then (if 0 < ?N then ?N - 1 else 0) else ?i + 1)\<rparr>)"
      "run_store (main f s full_df w st) = s'"
      "run_outcome (main f s full_df w st) = Rerun"
      by (simp_all add: save_click_def Let_def)
    then show ?thesis
      using False a unfolding mn by (simp add: Let_def clear_drafts_def)
  qed
qed

lemma existing_worksheet_not_raised:
  "s name \<noteq> None \<Longrightarrow> \<not> snd (snd (add_new_worksheet_and_write f s df name))"
  by (auto simp: add_new_worksheet_and_write_def create_and_write_def values_update_def
      add_sheet_def values_get_def values_append_def Let_def split: option.splits if_splits)

lemma failed_write_raised:
  "s name = None \<Longrightarrow> \<not> add_sheet_fails f \<Longrightarrow> update_fails f \<Longrightarrow>
     snd (snd (add_new_worksheet_and_write f s df name))"
  by (simp add: add_new_worksheet_and_write_def create_and_write_def values_update_def
      add_sheet_def values_get_def)

theorem save_then_advance_witness:
  "(\<exists>r. run_response (main (no_faults\<lparr>append_fails := True\<rparr>) (ledger_with ''999'') two_records
           (changing_widgets\<lparr>btn_save := True\<rparr>) drafting_session) = Some r)
   \<and> run_outcome (main (no_faults\<lparr>append_fails := True\<rparr>) (ledger_with ''999'') two_records
           (changing_widgets\<lparr>btn_save := True\<rparr>) drafting_session) = Rerun
   \<and> hnh_reason_text (run_session (main (no_faults\<lparr>append_fails := True\<rparr>) (ledger_with ''999'')
           two_records (changing_widgets\<lparr>btn_save := True\<rparr>) drafting_session)) = None
   \<and> current_record_index (run_session (main (no_faults\<lparr>append_fails := True\<rparr>)
           (ledger_with ''999'') two_records (changing_widgets\<lparr>btn_save := True\<rparr>)
           drafting_session)) = Some 1
   \<and> (\<exists>r. run_response (main (no_faults\<lparr>update_fails := True\<rparr>) empty_store two_records
           (changing_widgets\<lparr>btn_save := True\<rparr>) drafting_session) = Some r)
   \<and> update_fails (no_faults\<lparr>update_fails := True\<rparr>)
   \<and> run_outcome (main (no_faults\<lparr>update_fails := True\<rparr>) empty_store two_records
           (changing_widgets\<lparr>btn_save := True\<rparr>) drafting_session) = Raised
   \<and> hnh_reason_text (run_session (main (no_faults\<lparr>update_fails := True\<rparr>) empty_store
           two_records (changing_widgets\<lparr>btn_save := True\<rparr>) drafting_session))
        = Some ''Soil was sampled.''
   \<and> current_record_index (run_session (main (no_faults\<lparr>update_fails := True\<rparr>) empty_store
           two_records (changing_widgets\<lparr>btn_save := True\<rparr>) drafting_session)) = Some 0"
proof -
  let ?w = "changing_widgets\<lparr>btn_save := True\<rparr>"
  let ?fa = "no_faults\<lparr>append_fails := True\<rparr>"
  let ?fb = "no_faults\<lparr>update_fails := True\<rparr>"
  let ?Ra = "main ?fa (ledger_with ''999'') two_records ?w drafting_session"
  let ?Rb = "main ?fb empty_store two_records ?w drafting_session"
  have u: "user drafting_session = Some ''ann''"
    by (simp add: drafting_session_def fresh_session_def)
  have n: "int (length (df_values two_records)) = 2"
    by (simp add: two_records_def)
  have i: "cur_index (clamp_index 2 drafting_session) = 0"
    by (simp add: cur_index_def clamp_index_def drafting_session_def fresh_session_def Let_def)
  have c: "hnh_action_radio ?w = Change_Classification"
    by (simp add: changing_widgets_def idle_widgets_def)
  have d: "draft_of (hnh_reason_text drafting_session) = ''Soil was sampled.''"
    by (simp add: draft_of_def drafting_session_def fresh_session_def)
  have "run_response ?Ra \<noteq> None" by (simp add: run_defs input_defs)
  then obtain ra where ra: "run_response ?Ra = Some ra" by blast
  have "ledger_with ''999'' (''Validation_'' @ ''ann'') \<noteq> None" by (simp add: ledger_with_def)
  then have na: "\<not> snd (snd (add_new_worksheet_and_write ?fa (ledger_with ''999'') (response_df ra)
      (''Validation_'' @ ''ann'')))"
    by (rule existing_worksheet_not_raised)
  from save_then_advance [OF ra u] na
  have a: "run_outcome ?Ra = Rerun \<and> hnh_reason_text (run_session ?Ra) = None
      \<and> current_record_index (run_session ?Ra) = Some 1"
    by (simp add: Let_def n i)
  have "run_response ?Rb \<noteq> None" by (simp add: run_defs input_defs)
  then obtain rb where rb: "run_response ?Rb = Some rb" by blast
  have uf: "update_fails ?fb" "\<not> add_sheet_fails ?fb" by (simp_all add: no_faults_def)
  have "empty_store (''Validation_'' @ ''ann'') = None" by (simp add: empty_store_def)
  then have nb: "snd (snd (add_new_worksheet_and_write ?fb empty_store (response_df rb)
      (''Validation_'' @ ''ann'')))"
    using uf(2) uf(1) by (rule failed_write_raised)
  from save_then_advance [OF rb u] nb c
  have b: "run_outcome ?Rb = Raised
      \<and> hnh_reason_text (run_session ?Rb) = Some ''Soil was sampled.''
      \<and> current_record_index (run_session ?Rb) = Some 0"
    by (simp add: Let_def n i d)
  from ra a rb uf(1) b show ?thesis by blast
qed

text \<open>
  The claim as it is written fails: the ledger of the reviewer exists, the append fails in
  transport and is reported by the warning, the ledger is as it was, and the handler has
  cleared the drafts, the used sets and the subcategories and moved the index on.
\<close>

theorem failed_save_clears_counterexample:
  "run_notices (main (no_faults\<lparr>append_fails := True\<rparr>) (ledger_with ''999'') two_records
      (changing_widgets\<lparr>btn_save := True\<rparr>) drafting_session)
     = [Progress 2 1 1, Could_not_read_may_not_exist]
   \<and> level_of Could_not_read_may_not_exist = Warning
   \<and> run_store (main (no_faults\<lparr>append_fails := True\<rparr>) (ledger_with ''999'') two_records
      (changing_widgets\<lparr>btn_save := True\<rparr>) drafting_session) ''Validation_ann''
     = ledger_with ''999'' ''Validation_ann''
   \<and> hnh_reason_text drafting_session = Some ''Soil was sampled.''
   \<and> hnh_used_sentences drafting_session = Some {''Soil was sampled.''}
   \<and> current_record_index drafting_session = Some 0
   \<and> hnh_reason_text (run_session (main (no_faults\<lparr>append_fails := True\<rparr>) (ledger_with ''999'')
        two_records (changing_widgets\<lparr>btn_save := True\<rparr>) drafting_session)) = None
   \<and> hnh_used_sentences (run_session (main (no_faults\<lparr>append_fails := True\<rparr>)
        (ledger_with ''999'') two_records (changing_widgets\<lparr>btn_save := True\<rparr>)
        drafting_session)) = None
   \<and> non_human_subcategories (run_session (main (no_faults\<lparr>append_fails := True\<rparr>)
        (ledger_with ''999'') two_records (changing_widgets\<lparr>btn_save := True\<rparr>)
        drafting_session)) = None
   \<and> current_record_index (run_session (main (no_faults\<lparr>append_fails := True\<rparr>)
        (ledger_with ''999'') two_records (changing_widgets\<lparr>btn_save := True\<rparr>)
        drafting_session)) = Some 1"
  by (simp add: run_defs input_defs)


section \<open>The ledger: appending without duplicates\<close>

lemma overlay_Nil [simp]: "overlay vs [] = vs"
  by (induction vs) auto

lemma index_of_less: "x \<in> set xs \<Longrightarrow> index_of xs x < length xs"
  by (induction xs) auto

text \<open>
  What a save can do to the worksheet of its name: nothing; create it and leave it empty,
  when the write that follows fails; create it with the header and the batch; or append to
  it the rows of the batch whose identity the worksheet does not have.
\<close>

lemma save_ledger_cases:
  "fst (add_new_worksheet_and_write f s df name) name = s name
   \<or> (s name = None \<and> fst (add_new_worksheet_and_write f s df name) name = Some [])
   \<or> (s name = None
       \<and> fst (add_new_worksheet_and_write f s df name) name = Some (df_columns df # df_values df))
   \<or> (\<exists>vals. s name = Some vals \<and> vals \<noteq> [] \<and> ''PMID'' \<in> set (hd vals)
         \<and> fst (add_new_worksheet_and_write f s df name) name =
             Some (vals @ filter (\<lambda>r. df_pmid df r \<notin> set (pmid_column vals)) (df_values df)))"
  by (auto simp: add_new_worksheet_and_write_def create_and_write_def values_update_def
      add_sheet_def values_get_def values_append_def Let_def split: option.splits if_splits)

lemma pmid_column_full_rows:
  assumes "''PMID'' \<in> set (df_columns df)" and "df_ok df" and "set rows \<subseteq> set (df_values df)"
  shows "map (\<lambda>r. r ! index_of (df_columns df) ''PMID'')
           (filter (\<lambda>r. length r > index_of (df_columns df) ''PMID'') rows)
         = map (df_pmid df) rows"
proof -
  from assms(1) have "index_of (df_columns df) ''PMID'' < length (df_columns df)"
    by (rule index_of_less)
  with assms(2,3) have "\<forall>r \<in> set rows. length r > index_of (df_columns df) ''PMID''"
    by (auto simp: df_ok_def list_all_iff)
  then have "filter (\<lambda>r. length r > index_of (df_columns df) ''PMID'') rows = rows"
    by simp
  then show ?thesis by (simp add: df_pmid_def)
qed

lemma pmid_column_created:
  assumes "''PMID'' \<in> set (df_columns df)" and "df_ok df"
  shows "pmid_column (df_columns df # df_values df) = map (df_pmid df) (df_values df)"
  using pmid_column_full_rows [OF assms, of "df_values df"]
  by (simp add: pmid_column_def Let_def)

lemma pmid_column_appended:
  assumes "''PMID'' \<in> set (df_columns df)" and "df_ok df" and "set rows \<subseteq> set (df_values df)"
    and "vals \<noteq> []" and "index_of (hd vals) ''PMID'' = index_of (df_columns df) ''PMID''"
  shows "pmid_column (vals @ rows) = pmid_column vals @ map (df_pmid df) rows"
  using pmid_column_full_rows [OF assms(1-3)] assms(4,5)
  by (simp add: pmid_column_def Let_def)

text \<open>One save keeps the ledger free of duplicates, and keeps it aligned with the batch.\<close>

lemma save_keeps_unique:
  assumes b: "batch_distinct df" and u: "ledger_unique s name" and a: "aligned s name df"
  shows "ledger_unique (fst (add_new_worksheet_and_write f s df name)) name
       \<and> aligned (fst (add_new_worksheet_and_write f s df name)) name df"
proof -
  let ?s' = "fst (add_new_worksheet_and_write f s df name)"
  from b have pm: "''PMID'' \<in> set (df_columns df)" and ok: "df_ok df"
    and dist: "distinct (map (df_pmid df) (df_values df))"
    by (simp_all add: batch_distinct_def)
  consider (same) "?s' name = s name"
    | (empty) "?s' name = Some []"
    | (created) "?s' name = Some (df_columns df # df_values df)"
    | (appended) vals where "s name = Some vals" "vals \<noteq> []" "''PMID'' \<in> set (hd vals)"
        "?s' name = Some (vals @ filter (\<lambda>r. df_pmid df r \<notin> set (pmid_column vals)) (df_values df))"
    using save_ledger_cases [of f s df name] by blast
  then show ?thesis
  proof cases
    case same
    with u a show ?thesis by (simp add: ledger_unique_def aligned_def)
  next
    case empty
    then show ?thesis by (simp add: ledger_unique_def aligned_def ledger_pmids_def)
  next
    case created
    with pm dist pmid_column_created [OF pm ok] show ?thesis
      by (simp add: ledger_unique_def aligned_def ledger_pmids_def)
  next
    case appended
    let ?new = "filter (\<lambda>r. df_pmid df r \<notin> set (pmid_column vals)) (df_values df)"
    from appended a have al: "index_of (hd vals) ''PMID'' = index_of (df_columns df) ''PMID''"
      by (simp add: aligned_def)
    from appended u have du: "distinct (pmid_column vals)"
      by (simp add: ledger_unique_def ledger_pmids_def)
    have col: "pmid_column (vals @ ?new) = pmid_column vals @ map (df_pmid df) ?new"
      using pm ok _ appended(2) al by (rule pmid_column_appended) simp
    from dist have dn: "distinct (map (df_pmid df) ?new)" by (rule distinct_map_filter)
    have dj: "set (pmid_column vals) \<inter> set (map (df_pmid df) ?new) = {}" by auto
    from du dn dj have "distinct (pmid_column (vals @ ?new))" unfolding col by simp
    with appended al show ?thesis
      by (simp add: ledger_unique_def aligned_def ledger_pmids_def)
  qed
qed

lemma retry_saves_keep_unique:
  "batch_distinct df \<Longrightarrow> ledger_unique s name \<Longrightarrow> aligned s name df \<Longrightarrow>
     ledger_unique (retry_saves fs s df name) name \<and> aligned (retry_saves fs s df name) name df"
proof (induction fs arbitrary: s)
  case Nil
  then show ?case by simp
next
  case (Cons f fs)
  from save_keeps_unique [OF Cons.prems, of f]
  have "ledger_unique (fst (add_new_worksheet_and_write f s df name)) name"
    and "aligned (fst (add_new_worksheet_and_write f s df name)) name df"
    by simp_all
  with Cons.IH [OF Cons.prems(1)] show ?case by simp
qed

lemma save_nothing_to_add:
  assumes "\<not> get_fails f" and "s name = Some vals" and "vals \<noteq> []" and "''PMID'' \<in> set (hd vals)"
    and "''PMID'' \<in> set (df_columns df)"
    and "\<forall>r \<in> set (df_values df). df_pmid df r \<in> set (ledger_pmids vals)"
  shows "add_new_worksheet_and_write f s df name = (s, [No_new_responses], False)"
proof -
  from assms(3,4,6) have "filter (\<lambda>r. df_pmid df r \<notin> set (pmid_column vals)) (df_values df) = []"
    by (simp add: ledger_pmids_def)
  with assms(1-5) show ?thesis
    by (simp add: add_new_worksheet_and_write_def values_get_def Let_def)
qed

lemma save_adds_only_new:
  assumes "s name = Some vals" and "vals \<noteq> []" and "''PMID'' \<in> set (hd vals)"
  shows "fst (add_new_worksheet_and_write f s df name) name = Some vals
       \<or> fst (add_new_worksheet_and_write f s df name) name =
           Some (vals @ filter (\<lambda>r. df_pmid df r \<notin> set (ledger_pmids vals)) (df_values df))"
  using save_ledger_cases [of f s df name] assms by (auto simp: ledger_pmids_def)

text \<open>
  When the read fails although the worksheet exists, the creation path is taken, the
  request to add the sheet is refused, and nothing is written.
\<close>

lemma save_read_fails:
  assumes "get_fails f" and "s name = Some vals"
  shows "add_new_worksheet_and_write f s df name =
           (s, [Could_not_read_may_not_exist, Sheet_creation_error], False)"
  using assms
  by (simp add: add_new_worksheet_and_write_def create_and_write_def add_sheet_def
      values_get_def)

text \<open>
  Claim C1, as the code has it. The batch has the identity column in the ledger's position
  and no identity twice, as the single judgment of the save handler has, and the ledger has
  no identity twice. Then a save leaves the ledger as it was or appends to it exactly the
  pending rows whose identity it does not have, so none for a record that is in it. When
  the read of the ledger succeeds and every pending record is in it, the save changes
  nothing and reports that there is nothing to add, as an information. When the read of the
  ledger fails, the save changes nothing either, and reports the warning of the read and
  the sheet-creation error. After any number of retried saves, whichever calls fail, the
  ledger has no identity twice.
\<close>

theorem idempotent_append:
  assumes "batch_distinct df" and "ledger_unique s name" and "aligned s name df"
  shows "(s name = Some vals \<and> vals \<noteq> [] \<and> ''PMID'' \<in> set (hd vals) \<longrightarrow>
            (fst (add_new_worksheet_and_write f s df name) name = Some vals
             \<or> fst (add_new_worksheet_and_write f s df name) name =
                 Some (vals @ filter (\<lambda>r. df_pmid df r \<notin> set (ledger_pmids vals)) (df_values df)))
          \<and> (\<not> get_fails f \<and> (\<forall>r \<in> set (df_values df). df_pmid df r \<in> set (ledger_pmids vals)) \<longrightarrow>
                add_new_worksheet_and_write f s df name = (s, [No_new_responses], False)
              \<and> level_of No_new_responses = Info)
          \<and> (get_fails f \<longrightarrow>
                add_new_worksheet_and_write f s df name =
                  (s, [Could_not_read_may_not_exist, Sheet_creation_error], False)))
       \<and> ledger_unique (retry_saves fs s df name) name"
proof -
  from assms(1) have pm: "''PMID'' \<in> set (df_columns df)" by (simp add: batch_distinct_def)
  have 1: "s name = Some vals \<and> vals \<noteq> [] \<and> ''PMID'' \<in> set (hd vals) \<longrightarrow>
            (fst (add_new_worksheet_and_write f s df name) name = Some vals
             \<or> fst (add_new_worksheet_and_write f s df name) name =
                 Some (vals @ filter (\<lambda>r. df_pmid df r \<notin> set (ledger_pmids vals)) (df_values df)))"
    using save_adds_only_new [of s name vals f df] by blast
  have 2: "s name = Some vals \<and> vals \<noteq> [] \<and> ''PMID'' \<in> set (hd vals) \<longrightarrow>
       \<not> get_fails f \<and> (\<forall>r \<in> set (df_values df). df_pmid df r \<in> set (ledger_pmids vals)) \<longrightarrow>
         add_new_worksheet_and_write f s df name = (s, [No_new_responses], False)"
    using save_nothing_to_add [of f s name vals df] pm by blast
  have 3: "s name = Some vals \<longrightarrow> get_fails f \<longrightarrow>
       add_new_worksheet_and_write f s df name =
         (s, [Could_not_read_may_not_exist, Sheet_creation_error], False)"
    using save_read_fails [of f s name vals df] by blast
  have 4: "ledger_unique (retry_saves fs s df name) name"
    using retry_saves_keep_unique [OF assms] by simp
  from 1 2 3 4 show ?thesis by simp
qed

theorem idempotent_append_witness:
  "batch_distinct (batch_of [''101'']) \<and> ledger_unique (ledger_with ''101'') ''Validation_ann''
   \<and> aligned (ledger_with ''101'') ''Validation_ann'' (batch_of [''101''])
   \<and> ledger_with ''101'' ''Validation_ann'' =
       Some [[''user'', ''timestamp'', ''PMID''], [''ann'', ''2023-12-31 09:00:00'', ''101'']]
   \<and> df_values (batch_of [''101'']) = [[''ann'', ''2024-01-01 00:00:00'', ''101'']]
   \<and> df_pmid (batch_of [''101'']) [''ann'', ''2024-01-01 00:00:00'', ''101'']
         \<in> set (ledger_pmids [[''user'', ''timestamp'', ''PMID''],
                               [''ann'', ''2023-12-31 09:00:00'', ''101'']])
   \<and> add_new_worksheet_and_write no_faults (ledger_with ''101'') (batch_of [''101''])
        ''Validation_ann'' = (ledger_with ''101'', [No_new_responses], False)
   \<and> get_fails (no_faults\<lparr>get_fails := True\<rparr>)
   \<and> add_new_worksheet_and_write (no_faults\<lparr>get_fails := True\<rparr>) (ledger_with ''101'')
        (batch_of [''101'']) ''Validation_ann''
       = (ledger_with ''101'', [Could_not_read_may_not_exist, Sheet_creation_error], False)
   \<and> ledger_unique
        (retry_saves [no_faults, no_faults\<lparr>append_fails := True\<rparr>, no_faults\<lparr>get_fails := True\<rparr>]
           (ledger_with ''101'') (batch_of [''101'']) ''Validation_ann'') ''Validation_ann''"
proof -
  let ?n = "''Validation_ann''"
  let ?vals = "[[''user'', ''timestamp'', ''PMID''], [''ann'', ''2023-12-31 09:00:00'', ''101'']]"
  let ?fs = "[no_faults, no_faults\<lparr>append_fails := True\<rparr>, no_faults\<lparr>get_fails := True\<rparr>]"
  have b: "batch_distinct (batch_of [''101''])"
    by (simp add: batch_distinct_def batch_of_def df_ok_def df_pmid_def)
  have l: "ledger_with ''101'' ?n = Some ?vals" by (simp add: ledger_with_def)
  have u: "ledger_unique (ledger_with ''101'') ?n"
    by (simp add: ledger_unique_def l ledger_pmids_def pmid_column_def)
  have a: "aligned (ledger_with ''101'') ?n (batch_of [''101''])"
    by (simp add: aligned_def l batch_of_def)
  have m: "\<forall>r \<in> set (df_values (batch_of [''101''])). df_pmid (batch_of [''101'']) r
         \<in> set (ledger_pmids ?vals)"
    by (simp add: batch_of_def df_pmid_def ledger_pmids_def pmid_column_def)
  have g: "\<not> get_fails no_faults" by (simp add: no_faults_def)
  note t = idempotent_append [OF b u a, where vals = ?vals and f = no_faults and fs = ?fs]
  from t l m g have 1: "add_new_worksheet_and_write no_faults (ledger_with ''101'') (batch_of [''101''])
        ?n = (ledger_with ''101'', [No_new_responses], False)"
    by simp
  from t have 2: "ledger_unique (retry_saves ?fs (ledger_with ''101'') (batch_of [''101'']) ?n) ?n"
    by simp
  have v: "df_values (batch_of [''101'']) = [[''ann'', ''2024-01-01 00:00:00'', ''101'']]"
    by (simp add: batch_of_def)
  from m have m': "df_pmid (batch_of [''101'']) [''ann'', ''2024-01-01 00:00:00'', ''101'']
         \<in> set (ledger_pmids ?vals)"
    unfolding v by simp
  have gf: "get_fails (no_faults\<lparr>get_fails := True\<rparr>)" by simp
  from idempotent_append [OF b u a, where vals = ?vals
      and f = "no_faults\<lparr>get_fails := True\<rparr>" and fs = ?fs] l gf
  have 3: "add_new_worksheet_and_write (no_faults\<lparr>get_fails := True\<rparr>) (ledger_with ''101'')
        (batch_of [''101'']) ?n
       = (ledger_with ''101'', [Could_not_read_may_not_exist, Sheet_creation_error], False)"
    by simp
  from b u a l v m' 1 gf 3 2 show ?thesis by (intro conjI)
qed

text \<open>
  The claim as it is written, for every batch, fails: the ledger has the record
  \<^verbatim>\<open>101\<close>, the batch has it too and has the record \<^verbatim>\<open>102\<close> twice. No row is
  appended for \<^verbatim>\<open>101\<close>, but the save reports two appended rows and the ledger has
  \<^verbatim>\<open>102\<close> twice.
\<close>

theorem batch_duplicates_counterexample:
  "ledger_unique (ledger_with ''101'') ''Validation_ann''
   \<and> ''101'' \<in> set (map (df_pmid (batch_of [''101'', ''102'', ''102'']))
                     (df_values (batch_of [''101'', ''102'', ''102''])))
   \<and> fst (add_new_worksheet_and_write no_faults (ledger_with ''101'')
         (batch_of [''101'', ''102'', ''102'']) ''Validation_ann'') ''Validation_ann''
       = Some [[''user'', ''timestamp'', ''PMID''],
               [''ann'', ''2023-12-31 09:00:00'', ''101''],
               [''ann'', ''2024-01-01 00:00:00'', ''102''],
               [''ann'', ''2024-01-01 00:00:00'', ''102'']]
   \<and> fst (snd (add_new_worksheet_and_write no_faults (ledger_with ''101'')
         (batch_of [''101'', ''102'', ''102'']) ''Validation_ann'')) = [Appended 2]
   \<and> \<not> ledger_unique (fst (add_new_worksheet_and_write no_faults (ledger_with ''101'')
         (batch_of [''101'', ''102'', ''102'']) ''Validation_ann'')) ''Validation_ann''"
  by (simp add: add_new_worksheet_and_write_def values_get_def values_append_def
      ledger_unique_def ledger_pmids_def pmid_column_def df_pmid_def Let_def
      ledger_with_def batch_of_def no_faults_def empty_store_def)


section \<open>A worksheet without the identity column\<close>

text \<open>
  A worksheet that exists but is empty or has no \<^verbatim>\<open>PMID\<close> in its header is not
  recognised, \<^verbatim>\<open>worksheet_exists\<close> stays false, and the request to add a sheet of
  its name is refused: the save reports the sheet-creation error and writes nothing.
\<close>

lemma unrecognised_worksheet_not_written:
  assumes "s name = Some vals" and "vals = [] \<or> ''PMID'' \<notin> set (hd vals)"
  shows "add_new_worksheet_and_write f s df name =
           (s, (if get_fails f then [Could_not_read_may_not_exist] else []) @ [Sheet_creation_error],
            False)"
  using assms
  by (auto simp: add_new_worksheet_and_write_def create_and_write_def add_sheet_def
      values_get_def)

text \<open>
  Claim C8 at a ledger whose header is \<^verbatim>\<open>user, timestamp, record\<close>. The reviewer
  saves the first record with nothing failing in transport. The run shows the
  sheet-creation error, the ledger is as it was, without the judgment, and the handler has
  moved on to the next record.
\<close>

theorem malformed_ledger_save_fails:
  "run_notices (main no_faults malformed_ledger two_records (idle_widgets\<lparr>btn_save := True\<rparr>)
      fresh_session) = [Progress 2 0 2, Sheet_creation_error]
   \<and> level_of Sheet_creation_error = Error
   \<and> run_store (main no_faults malformed_ledger two_records (idle_widgets\<lparr>btn_save := True\<rparr>)
        fresh_session) ''Validation_ann''
       = Some [[''user'', ''timestamp'', ''record''], [''ann'', ''2023-12-31 09:00:00'', ''101'']]
   \<and> run_outcome (main no_faults malformed_ledger two_records (idle_widgets\<lparr>btn_save := True\<rparr>)
        fresh_session) = Rerun
   \<and> current_record_index (run_session (main no_faults malformed_ledger two_records
        (idle_widgets\<lparr>btn_save := True\<rparr>) fresh_session)) = Some 1"
  by (simp add: run_defs input_defs)

end
